theory Spec2Isabelle
  imports Complex_Main "HOL-Library.Word" "HOL-Library.Monad_Syntax"
begin

section \<open>Strings and canvas calls\<close>

text \<open>
  A JavaScript string is a sequence of UTF-16 code units; \<open>length\<close>, \<open>slice\<close> and
  \<open>split\<close> count code units. The ellipsis U+2026 is one code unit.
\<close>

type_synonym jstring = "16 word list"

definition space :: "16 word" where
  "space = 0x20"

definition ellipsis :: jstring where
  "ellipsis = [0x2026]"

text \<open>A string literal of the source, all ASCII, as code units.\<close>

definition js :: "string \<Rightarrow> jstring" where
  "js s = map (\<lambda>c. of_nat (of_char c)) s"

text \<open>\<open>s.split(c)\<close> for a one-unit separator: never the empty list, \<open>"".split(" ")\<close> is \<open>[""]\<close>.\<close>

fun js_split :: "16 word \<Rightarrow> jstring \<Rightarrow> jstring list" where
  "js_split sep [] = [[]]"
| "js_split sep (c # cs) =
     (if c = sep then [] # js_split sep cs
      else (case js_split sep cs of
              [] \<Rightarrow> [[c]]
            | w # ws \<Rightarrow> (c # w) # ws))"

text \<open>\<open>ws.join(sep)\<close>.\<close>

fun js_join :: "jstring \<Rightarrow> jstring list \<Rightarrow> jstring" where
  "js_join sep [] = []"
| "js_join sep [w] = w"
| "js_join sep (w # v # ws) = w @ sep @ js_join sep (v # ws)"

text \<open>The type \<^verbatim>\<open>"image" | "video"\<close> of \<open>mediaType\<close>.\<close>

datatype media_type = ImageMedia | VideoMedia

text \<open>
  The calls made on the 2D context, in the order they are made. Assignments to
  \<open>fillStyle\<close>, \<open>font\<close>, \<open>textBaseline\<close> and \<open>textAlign\<close> are part of the sequence.
  \<open>DrawImage\<close> records which element was drawn (the image or the video) and the
  destination rectangle.
\<close>

datatype canvas_op =
    SetFillStyle string
  | SetFont string
  | SetTextBaseline string
  | SetTextAlign string
  | FillRect real real real real
  | FillText jstring real real
  | DrawImage media_type real real real real

section \<open>wrapText\<close>

text \<open>
  \<open>mw s\<close> stands for \<open>ctx.measureText(s).width\<close> under the font in force; it is a
  parameter of the model. The \<open>while\<close> loop that shortens the last line:
  \<^verbatim>\<open>while (ctx.measureText(rest + "\<dots>").width > maxWidth && rest.length > 0) rest = rest.slice(0, -1)\<close>
\<close>

partial_function (option) truncate_rest :: "(jstring \<Rightarrow> real) \<Rightarrow> real \<Rightarrow> jstring \<Rightarrow> jstring option" where
  "truncate_rest mw maxWidth rest =
     (if mw (rest @ ellipsis) > maxWidth \<and> length rest > 0
      then truncate_rest mw maxWidth (butlast rest)
      else Some rest)"

declare truncate_rest.simps [code]

text \<open>
  One pass through the body of the \<open>for\<close> loop at index \<open>n\<close>, with the current \<open>line\<close>,
  \<open>lineCount\<close> and the calls made so far. \<open>Next\<close> goes on to \<open>n + 1\<close>; \<open>Return\<close> is the
  \<open>return\<close> inside the loop. The loop enters the body only with \<open>n < words.length\<close>.
  \<open>maxLines\<close> is an integer.
\<close>

datatype loop_ctl =
    Next jstring nat "canvas_op list"
  | Return "canvas_op list"

definition testLine :: "jstring \<Rightarrow> jstring \<Rightarrow> jstring" where
  "testLine line w = (if line \<noteq> [] then line @ [space] @ w else w)"

definition wrap_step ::
  "(jstring \<Rightarrow> real) \<Rightarrow> jstring list \<Rightarrow> real \<Rightarrow> real \<Rightarrow> real \<Rightarrow> real \<Rightarrow> int
     \<Rightarrow> nat \<Rightarrow> jstring \<Rightarrow> nat \<Rightarrow> canvas_op list \<Rightarrow> loop_ctl option" where
  "wrap_step mw words x y maxWidth lineHeight maxLines n line lineCount out =
     (if mw (testLine line (words ! n)) > maxWidth \<and> n > 0 then
        (let out1 = out @ [FillText line x (y + real lineCount * lineHeight)];
             lineCount1 = lineCount + 1
         in if int lineCount1 \<ge> maxLines - 1 then
              do {
                rest \<leftarrow> truncate_rest mw maxWidth (js_join [space] (drop n words));
                Some (Return (out1 @ [FillText (rest @ ellipsis) x (y + real lineCount1 * lineHeight)]))
              }
            else Some (Next (words ! n) lineCount1 out1))
      else Some (Next (testLine line (words ! n)) lineCount out))"

text \<open>
  The \<open>for\<close> loop. The result is the calls made and whether the call left through the
  \<open>return\<close> inside the loop (the truncated last line) or ran to the final \<open>fillText\<close>.
\<close>

partial_function (option) wrap_loop ::
  "(jstring \<Rightarrow> real) \<Rightarrow> jstring list \<Rightarrow> real \<Rightarrow> real \<Rightarrow> real \<Rightarrow> real \<Rightarrow> int
     \<Rightarrow> nat \<Rightarrow> jstring \<Rightarrow> nat \<Rightarrow> canvas_op list \<Rightarrow> (canvas_op list \<times> bool) option" where
  "wrap_loop mw words x y maxWidth lineHeight maxLines n line lineCount out =
     (if n < length words then
        (case wrap_step mw words x y maxWidth lineHeight maxLines n line lineCount out of
           None \<Rightarrow> None
         | Some (Return out') \<Rightarrow> Some (out', True)
         | Some (Next line' lineCount' out') \<Rightarrow>
             wrap_loop mw words x y maxWidth lineHeight maxLines (n + 1) line' lineCount' out')
      else Some (out @ [FillText line x (y + real lineCount * lineHeight)], False))"

declare wrap_loop.simps [code]

definition wrapText ::
  "(jstring \<Rightarrow> real) \<Rightarrow> jstring \<Rightarrow> real \<Rightarrow> real \<Rightarrow> real \<Rightarrow> real \<Rightarrow> int
     \<Rightarrow> (canvas_op list \<times> bool) option" where
  "wrapText mw text x y maxWidth lineHeight maxLines =
     wrap_loop mw (js_split space text) x y maxWidth lineHeight maxLines 0 [] 0 []"

section \<open>drawFrame\<close>

text \<open>
  The component's properties, with the defaults of the source (\<open>durationSec = 5\<close>,
  \<open>width = 1280\<close>, \<open>height = 720\<close>) filled in by the caller. Numbers are reals: the
  model has no NaN and no infinities.
\<close>

record Props =
  title :: jstring
  mediaUrl :: jstring
  mediaType :: media_type
  durationSec :: real
  width :: real
  height :: real

text \<open>What \<open>drawFrame\<close> reads of the image and of the video element.\<close>

record image =
  naturalWidth :: nat
  naturalHeight :: nat

record video =
  videoWidth :: nat
  videoHeight :: nat
  readyState :: nat

text \<open>
  A JavaScript division by zero raises nothing and gives an infinity or NaN. The reals
  have neither, so a division whose divisor is a variable is checked here and a zero
  divisor is an outcome of its own, at which the model stops. Divisions by the literal
  \<open>2\<close> are written directly.
\<close>

datatype arith_error = DivisionByZero

definition js_div :: "real \<Rightarrow> real \<Rightarrow> arith_error + real" where
  "js_div a b = (if b = 0 then Inl DivisionByZero else Inr (a / b))"

text \<open>
  Lines 52 and 53: \<^verbatim>\<open>progress = t / Math.max(total - 1, 1)\<close>, \<^verbatim>\<open>scale = 1.0 + progress * 0.1\<close>.
  The parameter \<open>total\<close> is written \<open>total'\<close>.
\<close>

definition zoom_scale :: "real \<Rightarrow> real \<Rightarrow> arith_error + real" where
  "zoom_scale t total' =
     (case js_div t (max (total' - 1) 1) of
        Inl err \<Rightarrow> Inl err
      | Inr progress \<Rightarrow> Inr (1.0 + progress * 0.1))"

text \<open>The image branch, lines 52 to 72, for an image that is present.\<close>

definition draw_image_band :: "real \<Rightarrow> real \<Rightarrow> real \<Rightarrow> real \<Rightarrow> real \<Rightarrow> image \<Rightarrow> arith_error + canvas_op list" where
  "draw_image_band mediaW mediaH mediaY t total' img =
     (case zoom_scale t total' of
        Inl err \<Rightarrow> Inl err
      | Inr scale \<Rightarrow>
          (let iw = naturalWidth img; ih = naturalHeight img
           in if iw \<noteq> 0 \<and> ih \<noteq> 0 then
                (case js_div mediaW mediaH of
                   Inl err \<Rightarrow> Inl err
                 | Inr mediaAspect \<Rightarrow>
                     (case js_div (real iw) (real ih) of
                        Inl err \<Rightarrow> Inl err
                      | Inr imgAspect \<Rightarrow>
                          (case (if imgAspect > mediaAspect
                                 then Inr (mediaH * scale * imgAspect, mediaH * scale)
                                 else (case js_div (mediaW * scale) imgAspect of
                                         Inl err \<Rightarrow> Inl err
                                       | Inr drawH \<Rightarrow> Inr (mediaW * scale, drawH))) of
                             Inl err \<Rightarrow> Inl err
                           | Inr (drawW, drawH) \<Rightarrow>
                               (let offsetX = (mediaW - drawW) / 2;
                                    offsetY = (mediaH - drawH) / 2
                                in Inr [DrawImage ImageMedia offsetX (mediaY + offsetY) drawW drawH]))))
              else Inr []))"

text \<open>The video branch, lines 74 to 91, for a video that is present and ready.\<close>

definition draw_video_band :: "real \<Rightarrow> real \<Rightarrow> real \<Rightarrow> video \<Rightarrow> arith_error + canvas_op list" where
  "draw_video_band mediaW mediaH mediaY vid =
     (let vw = videoWidth vid; vh = videoHeight vid
      in if vw \<noteq> 0 \<and> vh \<noteq> 0 then
           (case js_div mediaW mediaH of
              Inl err \<Rightarrow> Inl err
            | Inr mediaAspect \<Rightarrow>
                (case js_div (real vw) (real vh) of
                   Inl err \<Rightarrow> Inl err
                 | Inr vidAspect \<Rightarrow>
                     (case (if vidAspect > mediaAspect
                            then Inr (mediaH * vidAspect, mediaH)
                            else (case js_div mediaW vidAspect of
                                    Inl err \<Rightarrow> Inl err
                                  | Inr drawH \<Rightarrow> Inr (mediaW, drawH))) of
                        Inl err \<Rightarrow> Inl err
                      | Inr (drawW, drawH) \<Rightarrow>
                          (let offsetX = (mediaW - drawW) / 2;
                               offsetY = (mediaH - drawH) / 2
                           in Inr [DrawImage VideoMedia offsetX (mediaY + offsetY) drawW drawH]))))
         else Inr [])"

definition header_font :: string where
  "header_font = ''bold 42px system-ui, -apple-system, Segoe UI, Roboto, Helvetica, Arial, sans-serif''"

definition footer_font :: string where
  "footer_font = ''700 36px system-ui, -apple-system, Segoe UI, Roboto, Helvetica, Arial, sans-serif''"

text \<open>
  Lines 51 to 92: what is drawn over the black band. Nothing is drawn when the media
  is missing, when a video is not ready, or when a dimension is zero.
\<close>

definition media_band ::
  "Props \<Rightarrow> real \<Rightarrow> real \<Rightarrow> real \<Rightarrow> real \<Rightarrow> real \<Rightarrow> image option \<Rightarrow> video option
     \<Rightarrow> arith_error + canvas_op list" where
  "media_band p mediaW mediaH mediaY t total' img vid =
     (if mediaType p = ImageMedia \<and> img \<noteq> None
      then draw_image_band mediaW mediaH mediaY t total' (the img)
      else if mediaType p = VideoMedia \<and> vid \<noteq> None \<and> readyState (the vid) \<ge> 2
      then draw_video_band mediaW mediaH mediaY (the vid)
      else Inr [])"

text \<open>
  \<open>drawFrame\<close>. \<open>mw\<close> measures text under the footer font. The result is \<open>None\<close> if
  the call does not return, \<open>Some (Inl DivisionByZero)\<close> if a divisor was zero, and
  otherwise the calls made on the context.
\<close>

definition drawFrame ::
  "Props \<Rightarrow> (jstring \<Rightarrow> real) \<Rightarrow> real \<Rightarrow> real \<Rightarrow> image option \<Rightarrow> video option
     \<Rightarrow> (arith_error + canvas_op list) option" where
  "drawFrame p mw t total' img vid =
     (let headerH = 100; footerH = 120; mediaY = headerH;
          mediaH = height p - headerH - footerH; mediaW = width p;
          top = [SetFillStyle ''#ffffff'', FillRect 0 0 (width p) (height p),
                 SetFillStyle ''#e11d48'', FillRect 0 0 (width p) headerH,
                 SetFillStyle ''#ffffff'', SetFont header_font,
                 SetTextBaseline ''middle'', SetTextAlign ''left'',
                 FillText (js ''Breaking News'') 36 (headerH / 2),
                 SetFillStyle ''#000000'', FillRect 0 mediaY mediaW mediaH]
      in case media_band p mediaW mediaH mediaY t total' img vid of
           Inl err \<Rightarrow> Some (Inl err)
         | Inr drawn \<Rightarrow>
             (let padding = 36; titleY = height p - footerH + 24
              in case wrapText mw (title p) padding titleY (width p - padding * 2) 44 2 of
                   None \<Rightarrow> None
                 | Some (lines, truncated) \<Rightarrow>
                     Some (Inr (top @ drawn @
                                [SetFillStyle ''#0a0a0a'', SetTextAlign ''left'',
                                 SetTextBaseline ''top'', SetFont footer_font] @ lines))))"

section \<open>handleGenerate\<close>

datatype GenState =
    Idle
  | Recording real
  | Done jstring nat
  | Error jstring

text \<open>
  A thrown value, as the \<open>catch\<close> block reads it: its \<open>message\<close>, if it has one.
  An awaited promise resolves, rejects, or stays pending for ever.
\<close>

type_synonym thrown = "jstring option"

datatype awaited = Resolved | Rejected thrown | Pending

text \<open>The next event an image or video element dispatches, if any.\<close>

datatype dom_event = Load | LoadError | LoadedData | LoadedMetadata | NoEvent

text \<open>
  What the browser does during one run: the outcome of each call that \<open>handleGenerate\<close>
  makes on it. A field of type \<open>thrown option\<close> is \<open>None\<close> when the call returns and
  \<open>Some e\<close> when it throws \<open>e\<close>. \<open>isTypeSupported e m\<close> is \<open>Inl err\<close> when evaluating
  \<^verbatim>\<open>MediaRecorder.isTypeSupported(m)\<close> throws (\<open>MediaRecorder\<close> is not defined, or has
  no such method) and \<open>Inr b\<close> when it returns \<open>b\<close>. \<open>double_mul e a b\<close> is the product
  \<open>a * b\<close> as the runtime computes it, rounded to a double; the model does not say how
  it rounds.
\<close>

record env =
  context2d :: bool
  img_complete :: bool
  img_naturalWidth :: nat
  img_event :: dom_event
  play :: awaited
  vid_readyState :: nat
  vid_event :: dom_event
  captureStream :: "thrown option"
  isTypeSupported :: "jstring \<Rightarrow> thrown + bool"
  newMediaRecorder :: "jstring option \<Rightarrow> thrown option"
  recorder_start :: "thrown option"
  canvas_throws :: "nat \<Rightarrow> thrown option"
  recorder_stop :: "thrown option"
  stop_event :: bool
  chunk_sizes :: "nat list"
  createObjectURL :: "thrown + jstring"
  double_mul :: "real \<Rightarrow> real \<Rightarrow> real"

text \<open>
  \<open>waitImage\<close>: resolves at once for a complete image with a width, and otherwise on
  \<open>load\<close>; rejects on \<open>error\<close>.
\<close>

definition waitImage :: "env \<Rightarrow> awaited" where
  "waitImage e =
     (if img_complete e \<and> img_naturalWidth e \<noteq> 0 then Resolved
      else (case img_event e of
              Load \<Rightarrow> Resolved
            | LoadError \<Rightarrow> Rejected (Some (js ''Failed to load image for canvas.''))
            | _ \<Rightarrow> Pending))"

text \<open>
  \<open>waitVideoReady\<close>: resolves at once when \<open>readyState >= 2\<close>, and otherwise on
  \<open>loadeddata\<close> or \<open>loadedmetadata\<close>. It sets no \<open>onerror\<close> handler.
\<close>

definition waitVideoReady :: "env \<Rightarrow> awaited" where
  "waitVideoReady e =
     (if vid_readyState e \<ge> 2 then Resolved
      else (case vid_event e of
              LoadedData \<Rightarrow> Resolved
            | LoadedMetadata \<Rightarrow> Resolved
            | _ \<Rightarrow> Pending))"

text \<open>
  Lines 118 to 132. \<^verbatim>\<open>await vid.play().catch(() => {})\<close> swallows a rejection of
  \<open>play\<close>.
\<close>

definition prepare_media :: "Props \<Rightarrow> env \<Rightarrow> awaited" where
  "prepare_media p e =
     (if mediaType p = ImageMedia then waitImage e
      else (case play e of
              Pending \<Rightarrow> Pending
            | _ \<Rightarrow> waitVideoReady e))"

definition mimeTypeCandidates :: "jstring list" where
  "mimeTypeCandidates = [js ''video/webm;codecs=vp9'', js ''video/webm;codecs=vp8'', js ''video/webm'']"

text \<open>
  \<open>Array.prototype.find\<close> with the callback of line 138: the candidates are probed in
  order up to the first one that is supported, and a probe that throws ends the search.
\<close>

fun find_supported :: "(jstring \<Rightarrow> thrown + bool) \<Rightarrow> jstring list \<Rightarrow> thrown + jstring option" where
  "find_supported supported [] = Inr None"
| "find_supported supported (m # ms) =
     (case supported m of
        Inl err \<Rightarrow> Inl err
      | Inr True \<Rightarrow> Inr (Some m)
      | Inr False \<Rightarrow> find_supported supported ms)"

text \<open>Line 138: \<^verbatim>\<open>mimeTypeCandidates.find((m) => MediaRecorder.isTypeSupported(m)) || ""\<close>.\<close>

definition select_mimeType :: "env \<Rightarrow> thrown + jstring" where
  "select_mimeType e =
     (case find_supported (isTypeSupported e) mimeTypeCandidates of
        Inl err \<Rightarrow> Inl err
      | Inr (Some m) \<Rightarrow> Inr m
      | Inr None \<Rightarrow> Inr [])"

text \<open>Line 139: the second argument of the constructor, \<^verbatim>\<open>mimeType ? { mimeType } : undefined\<close>.\<close>

definition recorder_options :: "jstring \<Rightarrow> jstring option" where
  "recorder_options mimeType = (if mimeType \<noteq> [] then Some mimeType else None)"

definition fps :: nat where
  "fps = 30"

text \<open>
  \<^verbatim>\<open>Math.max(1, Math.floor(durationSec * fps))\<close>, where \<open>mul\<close> is the multiplication of
  the runtime: the floor is taken of the rounded product. The duration and the product
  are finite numbers (neither \<open>NaN\<close> nor an infinity).
\<close>

definition totalFrames :: "(real \<Rightarrow> real \<Rightarrow> real) \<Rightarrow> real \<Rightarrow> int" where
  "totalFrames mul d = max 1 \<lfloor>mul d (real fps)\<rfloor>"

text \<open>
  What a run does that can be seen from outside, in order: the \<open>setState\<close> calls, the
  \<open>drawFrame\<close> calls with their arguments \<open>f\<close> and \<open>totalFrames\<close>, the construction of
  the recorder with the \<open>mimeType\<close> option passed (\<open>None\<close> for \<open>undefined\<close>), and the
  construction of the blob with its type and size.
\<close>

datatype event =
    SetState GenState
  | DrawFrameCall nat nat
  | NewMediaRecorder "jstring option"
  | NewBlob jstring nat

text \<open>
  The frame loop, lines 148 to 154. \<open>drawFrame\<close> computes with numbers and calls the
  context; only a call on the context can throw, and \<open>canvas_throws e f\<close> says whether
  one does at frame \<open>f\<close>. \<open>waitMs\<close> always resolves. The result is the events so far
  and the value thrown, if any.
\<close>

function frame_loop :: "env \<Rightarrow> nat \<Rightarrow> nat \<Rightarrow> event list \<Rightarrow> event list \<times> thrown option" where
  "frame_loop e total' f evs =
     (if f < total' then
        (let evs1 = evs @ [DrawFrameCall f total']
         in case canvas_throws e f of
              Some err \<Rightarrow> (evs1, Some err)
            | None \<Rightarrow>
                frame_loop e total' (f + 1)
                  (if (f + 1) mod max 1 (total' div 50) = 0
                   then evs1 @ [SetState (Recording (real (f + 1) / real total'))]
                   else evs1))
      else (evs, None))"
  by pat_completeness auto
termination
  by (relation "measure (\<lambda>(e, total', f, evs). total' - f)") auto

declare frame_loop.simps [simp del]

text \<open>
  The body of the \<open>try\<close> block: the events, and how the body ends (it completes, it
  throws, or an \<open>await\<close> stays pending).
\<close>

definition try_body :: "Props \<Rightarrow> env \<Rightarrow> event list \<times> awaited" where
  "try_body p e =
     (let evs0 = [SetState (Recording 0)]
      in if \<not> context2d e then (evs0, Rejected (Some (js ''Canvas 2D context not available.'')))
         else case prepare_media p e of
           Pending \<Rightarrow> (evs0, Pending)
         | Rejected err \<Rightarrow> (evs0, Rejected err)
         | Resolved \<Rightarrow>
         (case captureStream e of
           Some err \<Rightarrow> (evs0, Rejected err)
         | None \<Rightarrow>
         (case select_mimeType e of
           Inl err \<Rightarrow> (evs0, Rejected err)
         | Inr mimeType \<Rightarrow>
         (let options = recorder_options mimeType;
              evs1 = evs0 @ [NewMediaRecorder options]
          in case newMediaRecorder e options of
           Some err \<Rightarrow> (evs1, Rejected err)
         | None \<Rightarrow>
         (let total' = nat (totalFrames (double_mul e) (durationSec p))
          in case recorder_start e of
           Some err \<Rightarrow> (evs1, Rejected err)
         | None \<Rightarrow>
         (case frame_loop e total' 0 evs1 of
           (evs2, Some err) \<Rightarrow> (evs2, Rejected err)
         | (evs2, None) \<Rightarrow>
         (case recorder_stop e of
           Some err \<Rightarrow> (evs2, Rejected err)
         | None \<Rightarrow>
         (if \<not> stop_event e then (evs2, Pending)
          else
            (let size = sum_list (filter (\<lambda>n. n > 0) (chunk_sizes e));
                 evs3 = evs2 @ [NewBlob (if mimeType \<noteq> [] then mimeType else js ''video/webm'') size]
             in case createObjectURL e of
                  Inl err \<Rightarrow> (evs3, Rejected err)
                | Inr url \<Rightarrow> (evs3 @ [SetState (Done url size)], Resolved))))))))))"

text \<open>\<^verbatim>\<open>e?.message || "Failed to generate video"\<close>.\<close>

definition error_message :: "thrown \<Rightarrow> jstring" where
  "error_message err =
     (case err of
        None \<Rightarrow> js ''Failed to generate video''
      | Some m \<Rightarrow> if m \<noteq> [] then m else js ''Failed to generate video'')"

text \<open>
  \<open>handleGenerate\<close>: the events of the run, and whether the call settles. It does not
  settle when an \<open>await\<close> inside the \<open>try\<close> block stays pending.
\<close>

definition handleGenerate :: "Props \<Rightarrow> env \<Rightarrow> event list \<times> bool" where
  "handleGenerate p e =
     (case try_body p e of
        (evs, Resolved) \<Rightarrow> (evs, True)
      | (evs, Rejected err) \<Rightarrow> (evs @ [SetState (Error (error_message err))], True)
      | (evs, Pending) \<Rightarrow> (evs, False))"

section \<open>The feed parsers\<close>

text \<open>The field \<open>id\<close> of the source is \<open>item_id\<close> here, and so for the other fields.\<close>

record NewsItem =
  item_id :: jstring
  item_title :: jstring
  item_mediaUrl :: jstring
  item_mediaType :: media_type

text \<open>
  \<open>String.prototype.trim\<close> removes white space and line terminators from both ends.
\<close>

definition is_js_space :: "16 word \<Rightarrow> bool" where
  "is_js_space c =
     (c \<in> {0x9, 0xA, 0xB, 0xC, 0xD, 0x20, 0xA0, 0x1680, 0x2028, 0x2029, 0x202F, 0x205F, 0x3000, 0xFEFF}
      \<or> (0x2000 \<le> c \<and> c \<le> 0x200A))"

definition trim :: "jstring \<Rightarrow> jstring" where
  "trim s = rev (dropWhile is_js_space (rev (dropWhile is_js_space s)))"

text \<open>
  \<open>String.prototype.toLowerCase\<close> on the letters A to Z. Other code units are kept:
  the Unicode mapping is not modelled. The program compares lowercased strings only
  with the ASCII constants \<open>title\<close>, \<open>mediaurl\<close>, \<open>media_url\<close>, \<open>mediatype\<close>,
  \<open>media_type\<close> and \<open>video\<close>.
\<close>

definition toLowerCase :: "jstring \<Rightarrow> jstring" where
  "toLowerCase s = map (\<lambda>c. if 0x41 \<le> c \<and> c \<le> 0x5A then c + 0x20 else c) s"

text \<open>
  \<open>normalizeLabel\<close>. A label that is \<open>null\<close> or \<open>undefined\<close> is \<open>None\<close>.
\<close>

definition normalizeLabel :: "jstring option \<Rightarrow> jstring" where
  "normalizeLabel label = toLowerCase (trim (case label of None \<Rightarrow> [] | Some l \<Rightarrow> l))"

text \<open>
  The objects \<open>colIndex\<close> and \<open>indices\<close>: \<open>forEach\<close> assigns the position of every label
  that is not empty after normalisation, so a later column replaces an earlier one of
  the same name. \<open>index_step\<close> is the function given to \<open>forEach\<close>. The object is read
  only under the five names above.
\<close>

definition index_step :: "(jstring \<rightharpoonup> nat) \<Rightarrow> nat \<times> jstring option \<Rightarrow> (jstring \<rightharpoonup> nat)" where
  "index_step m il =
     (case il of (i, l) \<Rightarrow> let key = normalizeLabel l in if key \<noteq> [] then m(key \<mapsto> i) else m)"

definition index_labels :: "jstring option list \<Rightarrow> (jstring \<rightharpoonup> nat)" where
  "index_labels labels = foldl index_step Map.empty (enumerate 0 labels)"

text \<open>\<open>String(n)\<close> for an integer \<open>n \<ge> 0\<close>.\<close>

fun nat_to_string :: "nat \<Rightarrow> jstring" where
  "nat_to_string n =
     (if n < 10 then [of_nat (48 + n)]
      else nat_to_string (n div 10) @ [of_nat (48 + n mod 10)])"

declare nat_to_string.simps [simp del]

subsection \<open>parseCsv\<close>

text \<open>\<open>text.split(/\r?\n/)\<close>.\<close>

fun split_lines :: "jstring \<Rightarrow> jstring list" where
  "split_lines [] = [[]]"
| "split_lines (c # cs) =
     (if c = 0xA then [] # split_lines cs
      else if c = 0xD \<and> cs \<noteq> [] \<and> hd cs = 0xA then [] # split_lines (tl cs)
      else (case split_lines cs of
              [] \<Rightarrow> [[c]]
            | w # ws \<Rightarrow> (c # w) # ws))"

text \<open>
  The loop of \<open>splitCsvLine\<close> over the rest of the line, with \<open>current\<close>, \<open>inQuotes\<close>
  and \<open>result\<close>. A doubled quote inside quotes consumes two code units.
\<close>

fun splitCsvLine_loop :: "jstring \<Rightarrow> jstring \<Rightarrow> bool \<Rightarrow> jstring list \<Rightarrow> jstring list" where
  "splitCsvLine_loop [] current inQuotes result = result @ [current]"
| "splitCsvLine_loop (ch # rest) current inQuotes result =
     (if ch = 0x22 then
        (case rest of
           ch2 # rest2 \<Rightarrow>
             if inQuotes \<and> ch2 = 0x22
             then splitCsvLine_loop rest2 (current @ [0x22]) inQuotes result
             else splitCsvLine_loop rest current (\<not> inQuotes) result
         | [] \<Rightarrow> splitCsvLine_loop rest current (\<not> inQuotes) result)
      else if ch = 0x2C \<and> \<not> inQuotes then splitCsvLine_loop rest [] inQuotes (result @ [current])
      else splitCsvLine_loop rest (current @ [ch]) inQuotes result)"

definition splitCsvLine :: "jstring \<Rightarrow> jstring list" where
  "splitCsvLine line = splitCsvLine_loop line [] False []"

text \<open>\<open>a || b\<close> on strings: the empty string is falsy.\<close>

definition str_or :: "jstring \<Rightarrow> jstring \<Rightarrow> jstring" where
  "str_or a b = (if a \<noteq> [] then a else b)"

text \<open>The closure \<open>get\<close>: \<^verbatim>\<open>ix != null ? cols[ix] || "" : ""\<close>.\<close>

definition csv_get :: "(jstring \<rightharpoonup> nat) \<Rightarrow> jstring list \<Rightarrow> jstring \<Rightarrow> jstring" where
  "csv_get indices cols name =
     (case indices name of
        Some ix \<Rightarrow> if ix < length cols then str_or (cols ! ix) [] else []
      | None \<Rightarrow> [])"

text \<open>The body of the loop over the data lines; \<open>None\<close> is \<open>continue\<close>.\<close>

definition csv_row :: "(jstring \<rightharpoonup> nat) \<Rightarrow> nat \<Rightarrow> jstring \<Rightarrow> NewsItem option" where
  "csv_row indices i line =
     (let cols = splitCsvLine line;
          title = csv_get indices cols (js ''title'');
          mediaUrl = str_or (csv_get indices cols (js ''mediaurl'')) (csv_get indices cols (js ''media_url''));
          mediaTypeRaw = str_or (csv_get indices cols (js ''mediatype'')) (csv_get indices cols (js ''media_type''));
          mediaType = (if toLowerCase (str_or mediaTypeRaw []) = js ''video'' then VideoMedia else ImageMedia)
      in if title = [] \<and> mediaUrl = [] then None
         else Some \<lparr> item_id = nat_to_string i, item_title = trim title,
                     item_mediaUrl = trim (str_or mediaUrl []), item_mediaType = mediaType \<rparr>)"

definition parseCsv :: "jstring \<Rightarrow> NewsItem list" where
  "parseCsv text =
     (let lines = filter (\<lambda>l. l \<noteq> []) (split_lines text)
      in if length lines = 0 then []
         else (let header = splitCsvLine (lines ! 0);
                   indices = index_labels (map Some header)
               in List.map_filter (\<lambda>i. csv_row indices i (lines ! i)) [1..<length lines]))"

subsection \<open>parseGviz\<close>

text \<open>
  \<open>JSON.parse\<close> is the runtime's. The model starts from the parsed response and covers
  the shape the source declares: \<open>table.cols\<close> is a list of objects with an optional
  string \<open>label\<close>, \<open>table.rows\<close> a list of objects whose \<open>c\<close> is a list of cells, and the
  \<open>v\<close> of a cell is null, a boolean, a number or a string. A missing \<open>table\<close>, \<open>cols\<close>,
  \<open>rows\<close> or \<open>c\<close> is the empty list; a cell that is null or has no \<open>v\<close> is \<open>JNull\<close>.
\<close>

datatype jsval = JNull | JBool bool | JNum real | JStr jstring

record gviz_table =
  cols :: "jstring option list"
  rows :: "jsval list list"

text \<open>\<open>c[ix]?.v\<close>, where \<open>ix\<close> is \<open>undefined\<close> for a name that is not in \<open>colIndex\<close>.\<close>

definition cell_v :: "jsval list \<Rightarrow> nat option \<Rightarrow> jsval" where
  "cell_v c ix =
     (case ix of
        None \<Rightarrow> JNull
      | Some i \<Rightarrow> if i < length c then c ! i else JNull)"

text \<open>\<open>a ?? b\<close>.\<close>

definition nullish :: "jsval \<Rightarrow> jsval \<Rightarrow> jsval" where
  "nullish a b = (if a = JNull then b else a)"

definition truthy :: "jsval \<Rightarrow> bool" where
  "truthy v = (case v of JNull \<Rightarrow> False | JBool b \<Rightarrow> b | JNum n \<Rightarrow> n \<noteq> 0 | JStr s \<Rightarrow> s \<noteq> [])"

text \<open>
  \<^verbatim>\<open>String(v || "")\<close>. The decimal form of a number is the runtime's and is the
  parameter \<open>numToString\<close>.
\<close>

definition string_or_empty :: "(real \<Rightarrow> jstring) \<Rightarrow> jsval \<Rightarrow> jstring" where
  "string_or_empty numToString v =
     (if truthy v then
        (case v of
           JStr s \<Rightarrow> s
         | JNum n \<Rightarrow> numToString n
         | JBool b \<Rightarrow> if b then js ''true'' else js ''false''
         | JNull \<Rightarrow> js ''null'')
      else [])"

text \<open>The function given to \<open>rows.map\<close>; \<open>None\<close> is the \<open>null\<close> that \<open>filter(Boolean)\<close> drops.\<close>

definition gviz_row :: "(real \<Rightarrow> jstring) \<Rightarrow> (jstring \<rightharpoonup> nat) \<Rightarrow> jsval list \<Rightarrow> nat \<Rightarrow> NewsItem option" where
  "gviz_row numToString colIndex c idx =
     (let title = nullish (cell_v c (colIndex (js ''title''))) (JStr []);
          mediaUrl = nullish (cell_v c (colIndex (js ''mediaurl'')))
                       (nullish (cell_v c (colIndex (js ''media_url''))) (JStr []));
          mediaTypeRaw = nullish (cell_v c (colIndex (js ''mediatype'')))
                           (nullish (cell_v c (colIndex (js ''media_type''))) (JStr []));
          mediaType = (if toLowerCase (string_or_empty numToString mediaTypeRaw) = js ''video''
                       then VideoMedia else ImageMedia)
      in if \<not> truthy title \<and> \<not> truthy mediaUrl then None
         else Some \<lparr> item_id = nat_to_string (idx + 1),
                     item_title = trim (string_or_empty numToString title),
                     item_mediaUrl = trim (string_or_empty numToString mediaUrl),
                     item_mediaType = mediaType \<rparr>)"

definition parseGviz :: "(real \<Rightarrow> jstring) \<Rightarrow> gviz_table \<Rightarrow> NewsItem list" where
  "parseGviz numToString tbl =
     (let colIndex = index_labels (cols tbl)
      in List.map_filter (\<lambda>idx. gviz_row numToString colIndex (rows tbl ! idx) idx)
           [0..<length (rows tbl)])"

section \<open>Notions used in the statements\<close>

text \<open>A \<open>fillText\<close> call, and the text it draws.\<close>

definition is_text :: "canvas_op \<Rightarrow> bool" where
  "is_text c = (case c of FillText _ _ _ \<Rightarrow> True | _ \<Rightarrow> False)"

definition shown :: "canvas_op \<Rightarrow> jstring" where
  "shown c = (case c of FillText s _ _ \<Rightarrow> s | _ \<Rightarrow> [])"

definition is_drawImage :: "canvas_op \<Rightarrow> bool" where
  "is_drawImage c = (case c of DrawImage _ _ _ _ _ \<Rightarrow> True | _ \<Rightarrow> False)"


text \<open>A text measure for examples: ten pixels for every code unit.\<close>

definition mw10 :: "jstring \<Rightarrow> real" where
  "mw10 s = 10 * real (length s)"



text \<open>Some \<open>fillText\<close> call draws the word \<open>w\<close> and nothing else.\<close>

definition drawn_alone :: "jstring \<Rightarrow> canvas_op list \<Rightarrow> bool" where
  "drawn_alone w ops = (w \<in> set (map shown (filter is_text ops)))"

text \<open>The media is present and one of its dimensions is zero.\<close>

definition zero_sized :: "Props \<Rightarrow> image option \<Rightarrow> video option \<Rightarrow> bool" where
  "zero_sized p img vid =
     (case mediaType p of
        ImageMedia \<Rightarrow> (case img of None \<Rightarrow> False | Some i \<Rightarrow> naturalWidth i = 0 \<or> naturalHeight i = 0)
      | VideoMedia \<Rightarrow> (case vid of None \<Rightarrow> False | Some v \<Rightarrow> videoWidth v = 0 \<or> videoHeight v = 0))"

text \<open>The states set, the \<open>drawFrame\<close> calls and the progress values of a run, in order.\<close>

fun states :: "event list \<Rightarrow> GenState list" where
  "states [] = []"
| "states (SetState s # evs) = s # states evs"
| "states (_ # evs) = states evs"

fun draw_calls :: "event list \<Rightarrow> (nat \<times> nat) list" where
  "draw_calls [] = []"
| "draw_calls (DrawFrameCall f n # evs) = (f, n) # draw_calls evs"
| "draw_calls (_ # evs) = draw_calls evs"

fun progress_values :: "GenState list \<Rightarrow> real list" where
  "progress_values [] = []"
| "progress_values (Recording r # ss) = r # progress_values ss"
| "progress_values (_ # ss) = progress_values ss"

fun is_terminal :: "GenState \<Rightarrow> bool" where
  "is_terminal (Done _ _) = True"
| "is_terminal (Error _) = True"
| "is_terminal _ = False"

text \<open>The number of frames between two progress updates, line 151.\<close>

definition update_step :: "nat \<Rightarrow> nat" where
  "update_step total' = max 1 (total' div 50)"

text \<open>
  The loop invariant for the progress values \<open>ps\<close> reported when the frame loop is at
  index \<open>f\<close>: the last one was reported at the last multiple of the update step.
\<close>

definition progress_inv :: "nat \<Rightarrow> nat \<Rightarrow> real list \<Rightarrow> bool" where
  "progress_inv total' f ps =
     (ps \<noteq> [] \<and> hd ps = 0 \<and> sorted ps \<and> (\<forall>r \<in> set ps. 0 \<le> r \<and> r \<le> 1)
      \<and> last ps = real (f - f mod update_step total') / real total')"

text \<open>Every step before the frame loop succeeds.\<close>

definition reaches_loop :: "Props \<Rightarrow> env \<Rightarrow> bool" where
  "reaches_loop p e =
     (context2d e \<and> prepare_media p e = Resolved \<and> captureStream e = None
      \<and> (case select_mimeType e of
            Inl err \<Rightarrow> False
          | Inr mimeType \<Rightarrow> newMediaRecorder e (recorder_options mimeType) = None)
      \<and> recorder_start e = None)"

text \<open>The run gets as far as probing the candidate formats.\<close>

definition reaches_probe :: "Props \<Rightarrow> env \<Rightarrow> bool" where
  "reaches_probe p e = (context2d e \<and> prepare_media p e = Resolved \<and> captureStream e = None)"

text \<open>Nothing fails from the frame loop to the end of the recording.\<close>

definition recording_completes :: "env \<Rightarrow> bool" where
  "recording_completes e =
     ((\<forall>f. canvas_throws e f = None) \<and> recorder_stop e = None \<and> stop_event e)"

text \<open>The size of the blob: the sum of the sizes of the chunks kept.\<close>

definition blob_size :: "env \<Rightarrow> nat" where
  "blob_size e = sum_list (filter (\<lambda>n. n > 0) (chunk_sizes e))"

text \<open>
  A browser in which every call succeeds and only the generic \<open>video/webm\<close> is
  supported, and the properties of a clip of \<open>d\<close> seconds. Its multiplication is the
  exact one: it is used below only where the exact product is a double.
\<close>

definition browser_ok :: env where
  "browser_ok =
     \<lparr> context2d = True, img_complete = False, img_naturalWidth = 0, img_event = Load,
       play = Resolved, vid_readyState = 4, vid_event = NoEvent, captureStream = None,
       isTypeSupported = (\<lambda>m. Inr (m = js ''video/webm'')), newMediaRecorder = (\<lambda>_. None),
       recorder_start = None, canvas_throws = (\<lambda>_. None), recorder_stop = None,
       stop_event = True, chunk_sizes = [1000, 0, 500], createObjectURL = Inr (js ''blob:1''),
       double_mul = (\<lambda>a b. a * b) \<rparr>"

definition clip :: "media_type \<Rightarrow> real \<Rightarrow> Props" where
  "clip mt d = \<lparr> title = js ''News'', mediaUrl = js ''/a.jpg'', mediaType = mt,
                 durationSec = d, width = 1280, height = 720 \<rparr>"

text \<open>
  Five browsers that differ from \<open>browser_ok\<close> in one respect: no 2D context; a
  video that fails to load (\<open>play\<close> rejects, the element fires \<open>error\<close> and never
  becomes ready); an image that fails to load; no supported candidate format; no
  \<open>MediaRecorder\<close> at all.
\<close>

definition browser_no_context :: env where
  "browser_no_context = browser_ok \<lparr> context2d := False \<rparr>"

definition browser_video_error :: env where
  "browser_video_error =
     browser_ok \<lparr> play := Rejected None, vid_readyState := 0, vid_event := LoadError \<rparr>"

definition browser_image_error :: env where
  "browser_image_error = browser_ok \<lparr> img_event := LoadError \<rparr>"

definition browser_no_codec :: env where
  "browser_no_codec = browser_ok \<lparr> isTypeSupported := (\<lambda>_. Inr False) \<rparr>"

definition browser_no_recorder :: env where
  "browser_no_recorder =
     browser_ok \<lparr> isTypeSupported := (\<lambda>_. Inl (Some (js ''MediaRecorder is not defined''))) \<rparr>"

definition browser_no_encoder :: env where
  "browser_no_encoder =
     browser_ok \<lparr> newMediaRecorder := (\<lambda>_. Some (Some (js ''Failed to construct MediaRecorder''))) \<rparr>"

text \<open>
  Exactly one column, \<open>k\<close>, has a normalised label \<open>mediatype\<close> or \<open>media_type\<close>; no
  column has one; and the cell of a row in column \<open>k\<close> is \<open>video\<close> up to case.
\<close>

definition media_type_column :: "jstring option list \<Rightarrow> nat \<Rightarrow> bool" where
  "media_type_column labels k =
     (k < length labels \<and>
      (\<forall>j \<in> set [0..<length labels].
          normalizeLabel (labels ! j) \<in> {js ''mediatype'', js ''media_type''} \<longleftrightarrow> j = k))"

definition no_media_type_column :: "jstring option list \<Rightarrow> bool" where
  "no_media_type_column labels =
     (\<forall>j \<in> set [0..<length labels].
          normalizeLabel (labels ! j) \<notin> {js ''mediatype'', js ''media_type''})"

definition csv_cell_is_video :: "jstring list \<Rightarrow> nat \<Rightarrow> bool" where
  "csv_cell_is_video cells k = (k < length cells \<and> toLowerCase (cells ! k) = js ''video'')"

definition gviz_cell_is_video :: "jsval list \<Rightarrow> nat \<Rightarrow> bool" where
  "gviz_cell_is_video cells k =
     (k < length cells \<and> (case cells ! k of JStr s \<Rightarrow> toLowerCase s = js ''video'' | _ \<Rightarrow> False))"

text \<open>The lines of a CSV text that are not empty, and the labels of its header line.\<close>

definition csv_lines :: "jstring \<Rightarrow> jstring list" where
  "csv_lines text = filter (\<lambda>l. l \<noteq> []) (split_lines text)"

definition csv_header :: "jstring \<Rightarrow> jstring option list" where
  "csv_header text = map Some (splitCsvLine (csv_lines text ! 0))"

text \<open>
  A CSV feed and a GViz table with two rows each, and a stand-in for the decimal form
  of numbers.
\<close>

definition feed_csv :: jstring where
  "feed_csv = js ''Title,mediaUrl, MediaType '' @ [0xD, 0xA] @ js ''Flood,/a.mp4,VIDEO'' @ [0xA]
                @ js ''Fire,/b.jpg,photo''"

definition feed_gviz :: gviz_table where
  "feed_gviz = \<lparr> cols = [Some (js ''title''), None, Some (js ''Media_Type'')],
                 rows = [[JStr (js ''Flood''), JNull, JStr (js ''Video'')],
                         [JStr (js ''Fire''), JNull, JBool True]] \<rparr>"

definition digits0 :: "real \<Rightarrow> jstring" where
  "digits0 n = js ''0''"

text \<open>
  The column a parser reads for a name: the loop over the labels lets a later column
  with the same normalized label replace an earlier one.
\<close>

definition last_column :: "jstring option list \<Rightarrow> jstring \<Rightarrow> nat option" where
  "last_column labels name =
     (let ks = filter (\<lambda>j. normalizeLabel (labels ! j) = name) [0..<length labels]
      in if ks = [] then None else Some (last ks))"

text \<open>
  The media type cell that \<open>parseCsv\<close> reads from a row: the one under \<open>mediaType\<close>, and
  the one under \<open>media_type\<close> when that is missing or empty (\<^verbatim>\<open>||\<close>).
\<close>

definition csv_cell_at :: "jstring list \<Rightarrow> nat option \<Rightarrow> jstring" where
  "csv_cell_at cells column =
     (case column of
        None \<Rightarrow> []
      | Some k \<Rightarrow> if k < length cells then cells ! k else [])"

definition csv_selected_cell :: "jstring option list \<Rightarrow> jstring list \<Rightarrow> jstring" where
  "csv_selected_cell labels cells =
     (if csv_cell_at cells (last_column labels (js ''mediatype'')) \<noteq> []
      then csv_cell_at cells (last_column labels (js ''mediatype''))
      else csv_cell_at cells (last_column labels (js ''media_type'')))"

text \<open>
  The media type cell that \<open>parseGviz\<close> reads from a row: the one under \<open>mediaType\<close>,
  and the one under \<open>media_type\<close> when that is missing or \<open>null\<close> (\<^verbatim>\<open>??\<close>).
\<close>

definition gviz_cell_at :: "jsval list \<Rightarrow> nat option \<Rightarrow> jsval" where
  "gviz_cell_at cells column =
     (case column of
        None \<Rightarrow> JNull
      | Some k \<Rightarrow> if k < length cells then cells ! k else JNull)"

definition gviz_selected_cell :: "jstring option list \<Rightarrow> jsval list \<Rightarrow> jsval" where
  "gviz_selected_cell labels cells =
     (if gviz_cell_at cells (last_column labels (js ''mediatype'')) \<noteq> JNull
      then gviz_cell_at cells (last_column labels (js ''mediatype''))
      else gviz_cell_at cells (last_column labels (js ''media_type'')))"

definition is_video_string :: "jsval \<Rightarrow> bool" where
  "is_video_string v = (case v of JStr s \<Rightarrow> toLowerCase s = js ''video'' | _ \<Rightarrow> False)"

text \<open>
  One row in both formats, with a column \<open>mediaType\<close> whose cell is the empty string and
  a column \<open>media_type\<close> whose cell is \<open>video\<close>.
\<close>

definition feed_both_csv :: jstring where
  "feed_both_csv = js ''title,mediaType,media_type'' @ [0xA] @ js ''Flood,,video''"

definition feed_both_gviz :: gviz_table where
  "feed_both_gviz = \<lparr> cols = [Some (js ''title''), Some (js ''mediaType''), Some (js ''media_type'')],
                      rows = [[JStr (js ''Flood''), JStr [], JStr (js ''video'')]] \<rparr>"

section \<open>wrapText: the loops return\<close>

lemma truncate_rest_returns:
  "\<exists>r. truncate_rest mw maxWidth rest = Some r \<and> length r \<le> length rest
      \<and> (mw (r @ ellipsis) \<le> maxWidth \<or> r = [])"
proof (induction rest rule: rev_induct)
  case Nil
  show ?case by (subst truncate_rest.simps) simp
next
  case (snoc c cs)
  show ?case
  proof (cases "mw ((cs @ [c]) @ ellipsis) > maxWidth")
    case True
    then have "truncate_rest mw maxWidth (cs @ [c]) = truncate_rest mw maxWidth cs"
      by (subst truncate_rest.simps) simp
    with snoc show ?thesis by auto
  next
    case False
    then have "truncate_rest mw maxWidth (cs @ [c]) = Some (cs @ [c])"
      by (subst truncate_rest.simps) simp
    with False show ?thesis by auto
  qed
qed

lemma truncate_rest_nothing_fits:
  assumes "\<forall>s. mw (s @ ellipsis) > maxWidth"
  shows "truncate_rest mw maxWidth rest = Some []"
proof (induction rest rule: rev_induct)
  case Nil
  show ?case by (subst truncate_rest.simps) simp
next
  case (snoc c cs)
  from assms have "mw ((cs @ [c]) @ ellipsis) > maxWidth" by blast
  then have "truncate_rest mw maxWidth (cs @ [c]) = truncate_rest mw maxWidth cs"
    by (subst truncate_rest.simps) simp
  with snoc show ?case by simp
qed

lemma wrap_step_returns:
  "\<exists>r. wrap_step mw words x y maxWidth lineHeight maxLines n line lineCount out = Some r"
proof -
  obtain r where "truncate_rest mw maxWidth (js_join [space] (drop n words)) = Some r"
    using truncate_rest_returns by blast
  then show ?thesis by (simp add: wrap_step_def Let_def)
qed

text \<open>The three ways through the loop body.\<close>

lemma wrap_step_cases:
  assumes "wrap_step mw words x y maxWidth lineHeight maxLines n line lineCount out = Some r"
  shows "(\<not> (mw (testLine line (words ! n)) > maxWidth \<and> n > 0)
            \<and> r = Next (testLine line (words ! n)) lineCount out)
       \<or> (mw (testLine line (words ! n)) > maxWidth \<and> n > 0 \<and> \<not> int (lineCount + 1) \<ge> maxLines - 1
            \<and> r = Next (words ! n) (lineCount + 1)
                     (out @ [FillText line x (y + real lineCount * lineHeight)]))
       \<or> (mw (testLine line (words ! n)) > maxWidth \<and> n > 0 \<and> int (lineCount + 1) \<ge> maxLines - 1
            \<and> (\<exists>rest. truncate_rest mw maxWidth (js_join [space] (drop n words)) = Some rest
                  \<and> r = Return (out @ [FillText line x (y + real lineCount * lineHeight),
                                     FillText (rest @ ellipsis) x (y + real (lineCount + 1) * lineHeight)])))"
  using assms
  by (auto simp: wrap_step_def Let_def split: if_splits bind_splits)

text \<open>
  A proof rule for the \<open>for\<close> loop: an invariant \<open>I\<close> of the loop state that every pass
  keeps gives \<open>Q\<close> of the result, and the loop returns.
\<close>

lemma wrap_loop_rule:
  assumes "I n line lineCount out"
    and "\<And>n line lineCount out line' lineCount' out'.
           I n line lineCount out \<Longrightarrow> n < length words \<Longrightarrow>
           wrap_step mw words x y maxWidth lineHeight maxLines n line lineCount out
             = Some (Next line' lineCount' out') \<Longrightarrow> I (n + 1) line' lineCount' out'"
    and "\<And>n line lineCount out out'.
           I n line lineCount out \<Longrightarrow> n < length words \<Longrightarrow>
           wrap_step mw words x y maxWidth lineHeight maxLines n line lineCount out
             = Some (Return out') \<Longrightarrow> Q (out', True)"
    and "\<And>n line lineCount out.
           I n line lineCount out \<Longrightarrow> length words \<le> n \<Longrightarrow>
           Q (out @ [FillText line x (y + real lineCount * lineHeight)], False)"
  shows "\<exists>r. wrap_loop mw words x y maxWidth lineHeight maxLines n line lineCount out = Some r \<and> Q r"
  using assms(1)
proof (induction "length words - n" arbitrary: n line lineCount out)
  case 0
  then have ge: "length words \<le> n" by simp
  then have "wrap_loop mw words x y maxWidth lineHeight maxLines n line lineCount out
      = Some (out @ [FillText line x (y + real lineCount * lineHeight)], False)"
    by (subst wrap_loop.simps) simp
  with assms(4)[OF "0.prems" ge] show ?case by simp
next
  case (Suc k)
  then have lt: "n < length words" by simp
  obtain r where r: "wrap_step mw words x y maxWidth lineHeight maxLines n line lineCount out = Some r"
    using wrap_step_returns by blast
  show ?case
  proof (cases r)
    case (Next line' lineCount' out')
    have eq: "wrap_loop mw words x y maxWidth lineHeight maxLines n line lineCount out
        = wrap_loop mw words x y maxWidth lineHeight maxLines (n + 1) line' lineCount' out'"
      using lt r Next by (subst wrap_loop.simps) simp
    have "I (n + 1) line' lineCount' out'"
      using assms(2)[OF Suc.prems lt] r Next by simp
    moreover have "k = length words - (n + 1)" using Suc.hyps(2) by simp
    ultimately show ?thesis using Suc.hyps(1) eq by simp
  next
    case (Return out')
    have eq: "wrap_loop mw words x y maxWidth lineHeight maxLines n line lineCount out = Some (out', True)"
      using lt r Return by (subst wrap_loop.simps) simp
    with assms(3)[OF Suc.prems lt] r Return show ?thesis by simp
  qed
qed

lemma wrap_loop_only_text:
  "\<exists>r. wrap_loop mw words x y maxWidth lineHeight maxLines 0 [] 0 [] = Some r
       \<and> list_all is_text (fst r)"
proof (rule wrap_loop_rule[where I = "\<lambda>n line lineCount out. list_all is_text out"])
  show "list_all is_text []" by simp
next
  fix n line lineCount out line' lineCount' out'
  assume "list_all is_text out"
    and "wrap_step mw words x y maxWidth lineHeight maxLines n line lineCount out
          = Some (Next line' lineCount' out')"
  then show "list_all is_text out'"
    by (auto dest!: wrap_step_cases simp: is_text_def)
next
  fix n line lineCount out out'
  assume "list_all is_text out"
    and "wrap_step mw words x y maxWidth lineHeight maxLines n line lineCount out
          = Some (Return out')"
  then show "list_all is_text (fst (out', True))"
    by (auto dest!: wrap_step_cases simp: is_text_def)
next
  fix n :: nat and line :: jstring and lineCount :: nat and out :: "canvas_op list"
  assume "list_all is_text out"
  then show "list_all is_text (fst (out @ [FillText line x (y + real lineCount * lineHeight)], False))"
    by (simp add: is_text_def)
qed

lemma wrapText_only_text:
  "\<exists>lines truncated. wrapText mw text x y maxWidth lineHeight maxLines = Some (lines, truncated)
       \<and> list_all is_text lines"
  using wrap_loop_only_text[of mw "js_split space text" x y maxWidth lineHeight maxLines]
  by (auto simp: wrapText_def)



text \<open>
  C10. \<open>wrapText\<close> returns for every text, measure, width, line height and line
  budget. The truncation loop returns a string no longer than the one it was given,
  returns the empty string at once, and when the ellipsis is too wide after every
  string, also alone, it stops at the empty string.
\<close>

theorem wrapText_terminates:
  "(\<exists>r. wrapText mw text x y maxWidth lineHeight maxLines = Some r)
   \<and> (\<exists>r. truncate_rest mw maxWidth rest = Some r \<and> length r \<le> length rest)
   \<and> truncate_rest mw maxWidth [] = Some []
   \<and> ((\<forall>s. mw (s @ ellipsis) > maxWidth) \<longrightarrow> truncate_rest mw maxWidth rest = Some [])"
proof -
  have "\<exists>r. wrapText mw text x y maxWidth lineHeight maxLines = Some r"
    using wrapText_only_text[of mw "text" x y maxWidth lineHeight maxLines] by blast
  moreover have "\<exists>r. truncate_rest mw maxWidth rest = Some r \<and> length r \<le> length rest"
    using truncate_rest_returns[of mw maxWidth rest] by blast
  moreover have "truncate_rest mw maxWidth [] = Some []"
    by (subst truncate_rest.simps) simp
  ultimately show ?thesis
    using truncate_rest_nothing_fits[where mw = mw and maxWidth = maxWidth and rest = rest] by blast
qed

theorem wrapText_terminates_witness:
  "(\<forall>s. mw10 (s @ ellipsis) > 5) \<and> truncate_rest mw10 5 (js ''cd'') = Some []"
  using wrapText_terminates[of mw10 "js ''ab cd''" 36 624 5 44 2 "js ''cd''"]
  by (simp add: mw10_def ellipsis_def)

section \<open>wrapText: lines drawn\<close>

lemma wrap_loop_lines:
  assumes "2 \<le> maxLines"
  shows "\<exists>r. wrap_loop mw words x y maxWidth lineHeight maxLines 0 [] 0 [] = Some r \<and>
     (case r of (ops, truncated) \<Rightarrow>
        int (length ops) \<le> maxLines \<and> list_all is_text ops \<and>
        (truncated \<longrightarrow> (\<exists>rest. shown (last ops) = rest @ ellipsis
            \<and> (mw (rest @ ellipsis) \<le> maxWidth \<or> rest = []))))"
proof (rule wrap_loop_rule[where I = "\<lambda>n line lineCount out.
          length out = lineCount \<and> int lineCount < maxLines - 1 \<and> list_all is_text out"])
  show "length [] = 0 \<and> int 0 < maxLines - 1 \<and> list_all is_text []"
    using assms by simp
next
  fix n line lineCount out line' lineCount' out'
  assume "length out = lineCount \<and> int lineCount < maxLines - 1 \<and> list_all is_text out"
    and "wrap_step mw words x y maxWidth lineHeight maxLines n line lineCount out
          = Some (Next line' lineCount' out')"
  then show "length out' = lineCount' \<and> int lineCount' < maxLines - 1 \<and> list_all is_text out'"
    by (auto dest!: wrap_step_cases simp: is_text_def)
next
  fix n line lineCount out out'
  assume inv: "length out = lineCount \<and> int lineCount < maxLines - 1 \<and> list_all is_text out"
    and st: "wrap_step mw words x y maxWidth lineHeight maxLines n line lineCount out
          = Some (Return out')"
  from wrap_step_cases[OF st] obtain rest where
    tr: "truncate_rest mw maxWidth (js_join [space] (drop n words)) = Some rest"
    and out': "out' = out @ [FillText line x (y + real lineCount * lineHeight),
                  FillText (rest @ ellipsis) x (y + real (lineCount + 1) * lineHeight)]"
    by auto
  from truncate_rest_returns[of mw maxWidth "js_join [space] (drop n words)"] tr
  have fit: "mw (rest @ ellipsis) \<le> maxWidth \<or> rest = []" by auto
  show "case (out', True) of (ops, truncated) \<Rightarrow>
        int (length ops) \<le> maxLines \<and> list_all is_text ops \<and>
        (truncated \<longrightarrow> (\<exists>rest. shown (last ops) = rest @ ellipsis
            \<and> (mw (rest @ ellipsis) \<le> maxWidth \<or> rest = [])))"
    using inv fit by (auto simp: out' is_text_def shown_def)
next
  fix n line lineCount out
  assume "length out = lineCount \<and> int lineCount < maxLines - 1 \<and> list_all is_text out"
  then show "case (out @ [FillText line x (y + real lineCount * lineHeight)], False) of (ops, truncated) \<Rightarrow>
        int (length ops) \<le> maxLines \<and> list_all is_text ops \<and>
        (truncated \<longrightarrow> (\<exists>rest. shown (last ops) = rest @ ellipsis
            \<and> (mw (rest @ ellipsis) \<le> maxWidth \<or> rest = [])))"
    by (auto simp: is_text_def)
qed

text \<open>
  C1, amended. For every text, every measure, every \<open>maxWidth\<close> and every
  \<open>maxLines \<ge> 2\<close>, \<open>wrapText\<close> returns, makes only \<open>fillText\<close> calls and at most
  \<open>maxLines\<close> of them; and when it leaves through the truncation branch, the last line
  drawn ends with the ellipsis and either is no wider than \<open>maxWidth\<close> or is the
  ellipsis alone.
\<close>

theorem wrapText_line_budget:
  assumes "2 \<le> maxLines"
  shows "\<exists>ops truncated. wrapText mw text x y maxWidth lineHeight maxLines = Some (ops, truncated)
      \<and> list_all is_text ops \<and> int (length ops) \<le> maxLines
      \<and> (truncated \<longrightarrow> (\<exists>rest. shown (last ops) = rest @ ellipsis
            \<and> (mw (rest @ ellipsis) \<le> maxWidth \<or> rest = [])))"
  using wrap_loop_lines[OF assms, of mw "js_split space text" x y maxWidth lineHeight]
  by (auto simp: wrapText_def)

theorem wrapText_line_budget_witness:
  "(2::int) \<le> 2
   \<and> wrapText mw10 (js ''ab cd'') 36 624 25 44 2
       = Some ([FillText (js ''ab'') 36 624, FillText (js ''c'' @ ellipsis) 36 668], True)
   \<and> list_all is_text [FillText (js ''ab'') 36 624, FillText (js ''c'' @ ellipsis) 36 668]
   \<and> int (length [FillText (js ''ab'') 36 624, FillText (js ''c'' @ ellipsis) 36 668]) \<le> 2
   \<and> (\<exists>rest. shown (last [FillText (js ''ab'') 36 624, FillText (js ''c'' @ ellipsis) 36 668])
                 = rest @ ellipsis
         \<and> (mw10 (rest @ ellipsis) \<le> 25 \<or> rest = []))"
proof -
  have run: "wrapText mw10 (js ''ab cd'') 36 624 25 44 2
       = Some ([FillText (js ''ab'') 36 624, FillText (js ''c'' @ ellipsis) 36 668], True)"
    by (simp add: wrapText_def wrap_loop.simps wrap_step_def testLine_def truncate_rest.simps
        mw10_def space_def ellipsis_def js_def)
  have h: "(2::int) \<le> 2" by simp
  from wrapText_line_budget[OF h, of mw10 "js ''ab cd''" 36 624 25 44]
  obtain ops truncated where
    eq: "wrapText mw10 (js ''ab cd'') 36 624 25 44 2 = Some (ops, truncated)"
    and p: "list_all is_text ops" "int (length ops) \<le> 2"
      "truncated \<longrightarrow> (\<exists>rest. shown (last ops) = rest @ ellipsis
            \<and> (mw10 (rest @ ellipsis) \<le> 25 \<or> rest = []))"
    by blast
  from eq run have o: "ops = [FillText (js ''ab'') 36 624, FillText (js ''c'' @ ellipsis) 36 668]"
    and t: "truncated" by simp_all
  from p t have "list_all is_text [FillText (js ''ab'') 36 624, FillText (js ''c'' @ ellipsis) 36 668]
   \<and> int (length [FillText (js ''ab'') 36 624, FillText (js ''c'' @ ellipsis) 36 668]) \<le> 2
   \<and> (\<exists>rest. shown (last [FillText (js ''ab'') 36 624, FillText (js ''c'' @ ellipsis) 36 668])
                 = rest @ ellipsis
         \<and> (mw10 (rest @ ellipsis) \<le> 25 \<or> rest = []))"
    unfolding o by blast
  with run h show ?thesis by blast
qed

text \<open>
  C1 as stated fails twice. With \<open>maxLines = 1\<close> the text \<open>ab cd\<close> at width 25 is drawn
  on two lines. With \<open>maxLines = 2\<close> and width 5, where the ellipsis alone measures 10,
  the last line is the ellipsis and is wider than \<open>maxWidth\<close>.
\<close>

theorem wrapText_line_budget_counterexample:
  "wrapText mw10 (js ''ab cd'') 36 624 25 44 1
       = Some ([FillText (js ''ab'') 36 624, FillText (js ''c'' @ ellipsis) 36 668], True)
   \<and> \<not> int (length [FillText (js ''ab'') 36 624, FillText (js ''c'' @ ellipsis) 36 668]) \<le> 1
   \<and> wrapText mw10 (js ''ab cd'') 36 624 5 44 2
       = Some ([FillText (js ''ab'') 36 624, FillText ellipsis 36 668], True)
   \<and> \<not> mw10 ellipsis \<le> 5"
  by (simp add: wrapText_def wrap_loop.simps wrap_step_def testLine_def truncate_rest.simps
      mw10_def space_def ellipsis_def js_def)

section \<open>wrapText: when a line is committed\<close>







lemma drawn_alone_simps [simp]:
  "drawn_alone w [] = False"
  "drawn_alone w (ops @ [FillText s u v]) = (drawn_alone w ops \<or> w = s)"
  by (auto simp: drawn_alone_def is_text_def shown_def)





section \<open>drawFrame: the zoom\<close>

lemma zoom_scale_eq:
  "zoom_scale t total' = Inr (1 + t / max (total' - 1) 1 * 0.1)"
  by (simp add: zoom_scale_def js_div_def max_def)

text \<open>
  C2, amended. In image mode, for all \<open>totalFrames \<ge> 1\<close>, the zoom scale at frame 0 is
  exactly 1.0; for all \<open>totalFrames \<ge> 2\<close> the scale at frame \<open>totalFrames - 1\<close> is
  exactly 1.1 (for \<open>totalFrames = 1\<close> the only frame is frame 0, at 1.0); the scale is
  non-decreasing in the frame index and is \<open>1.0 + (f / max (totalFrames - 1) 1) * 0.1\<close>.
  The arithmetic is that of the reals.
\<close>

theorem zoom_scale_frames:
  assumes "1 \<le> totalFrames'"
  shows "zoom_scale 0 (real totalFrames') = Inr 1.0
     \<and> (2 \<le> totalFrames' \<longrightarrow> zoom_scale (real (totalFrames' - 1)) (real totalFrames') = Inr 1.1)
     \<and> (\<forall>f g. f \<le> g \<longrightarrow>
           (\<exists>a b. zoom_scale (real f) (real totalFrames') = Inr a
                \<and> zoom_scale (real g) (real totalFrames') = Inr b \<and> a \<le> b))
     \<and> (\<forall>f. zoom_scale (real f) (real totalFrames')
             = Inr (1.0 + real f / max (real totalFrames' - 1) 1 * 0.1))"
proof -
  have a: "zoom_scale 0 (real totalFrames') = Inr 1.0"
    by (simp add: zoom_scale_eq)
  have b: "zoom_scale (real (totalFrames' - 1)) (real totalFrames') = Inr 1.1" if "2 \<le> totalFrames'"
  proof -
    from that have "max (real totalFrames' - 1) 1 = real (totalFrames' - 1)"
      by (simp add: max_def of_nat_diff)
    moreover from that have "real (totalFrames' - 1) \<noteq> 0" by simp
    ultimately show ?thesis by (simp add: zoom_scale_eq)
  qed
  have c: "\<exists>a b. zoom_scale (real f) (real totalFrames') = Inr a
                \<and> zoom_scale (real g) (real totalFrames') = Inr b \<and> a \<le> b" if "f \<le> g" for f g :: nat
  proof -
    have "0 < max (real totalFrames' - 1) 1" by simp
    then have "real f / max (real totalFrames' - 1) 1 \<le> real g / max (real totalFrames' - 1) 1"
      using that by (simp add: divide_right_mono)
    then show ?thesis by (simp add: zoom_scale_eq)
  qed
  from a b c show ?thesis by (simp add: zoom_scale_eq)
qed

theorem zoom_scale_frames_witness:
  "(1::nat) \<le> 150 \<and> (2::nat) \<le> 150 \<and> (3::nat) \<le> 7
   \<and> zoom_scale 0 (real (150::nat)) = Inr 1.0
   \<and> zoom_scale (real (150 - 1 :: nat)) (real (150::nat)) = Inr 1.1
   \<and> (\<exists>a b. zoom_scale (real (3::nat)) (real (150::nat)) = Inr a
         \<and> zoom_scale (real (7::nat)) (real (150::nat)) = Inr b \<and> a \<le> b)"
proof -
  note z = zoom_scale_frames[of 150]
  have h: "(1::nat) \<le> 150" "(2::nat) \<le> 150" "(3::nat) \<le> 7" by simp_all
  from z[OF h(1)] h(2) have "zoom_scale (real (150 - 1 :: nat)) (real (150::nat)) = Inr 1.1"
    by blast
  moreover from z[OF h(1)] have "zoom_scale 0 (real (150::nat)) = Inr 1.0"
    by blast
  moreover from z[OF h(1)] h(3) have "\<exists>a b. zoom_scale (real (3::nat)) (real (150::nat)) = Inr a
         \<and> zoom_scale (real (7::nat)) (real (150::nat)) = Inr b \<and> a \<le> b"
    by blast
  ultimately show ?thesis using h by blast
qed

text \<open>
  C2 as stated fails at \<open>totalFrames = 1\<close>: frame \<open>totalFrames - 1\<close> is frame 0 and its
  scale is 1.0, not 1.1.
\<close>

theorem zoom_scale_single_frame_counterexample:
  "zoom_scale (real ((1::nat) - 1)) (real (1::nat)) = Inr 1.0
   \<and> zoom_scale (real ((1::nat) - 1)) (real (1::nat)) \<noteq> Inr 1.1"
  by (simp add: zoom_scale_def js_div_def)

section \<open>drawFrame: divisions\<close>

lemma draw_image_band_ok:
  assumes "mediaH \<noteq> 0"
  shows "\<exists>ops. draw_image_band mediaW mediaH mediaY t total' img = Inr ops"
  using assms
  by (auto simp: draw_image_band_def zoom_scale_def js_div_def Let_def)

lemma draw_video_band_ok:
  assumes "mediaH \<noteq> 0"
  shows "\<exists>ops. draw_video_band mediaW mediaH mediaY vid = Inr ops"
  using assms
  by (auto simp: draw_video_band_def js_div_def Let_def)

lemma draw_image_band_zero:
  assumes "naturalWidth img = 0 \<or> naturalHeight img = 0"
  shows "draw_image_band mediaW mediaH mediaY t total' img = Inr []"
  using assms
  by (auto simp: draw_image_band_def zoom_scale_def js_div_def Let_def)

lemma draw_video_band_zero:
  assumes "videoWidth vid = 0 \<or> videoHeight vid = 0"
  shows "draw_video_band mediaW mediaH mediaY vid = Inr []"
  using assms
  by (auto simp: draw_video_band_def js_div_def Let_def)

lemma media_band_ok:
  "mediaH \<noteq> 0 \<Longrightarrow> \<exists>ops. media_band p mediaW mediaH mediaY t total' img vid = Inr ops"
  using draw_image_band_ok[of mediaH] draw_video_band_ok[of mediaH]
  by (simp add: media_band_def)

lemma media_band_zero:
  "zero_sized p img vid \<Longrightarrow> media_band p mediaW mediaH mediaY t total' img vid = Inr []"
  by (auto simp: media_band_def zero_sized_def draw_image_band_zero draw_video_band_zero
      split: media_type.splits option.splits)

text \<open>\<open>drawFrame\<close> with its local constants written out.\<close>

lemma drawFrame_unfolded:
  "drawFrame p mw t total' img vid =
     (case media_band p (width p) (height p - 100 - 120) 100 t total' img vid of
        Inl err \<Rightarrow> Some (Inl err)
      | Inr drawn \<Rightarrow>
          (case wrapText mw (title p) 36 (height p - 120 + 24) (width p - 36 * 2) 44 2 of
             None \<Rightarrow> None
           | Some (lines, truncated) \<Rightarrow>
               Some (Inr ([SetFillStyle ''#ffffff'', FillRect 0 0 (width p) (height p),
                 SetFillStyle ''#e11d48'', FillRect 0 0 (width p) 100,
                 SetFillStyle ''#ffffff'', SetFont header_font,
                 SetTextBaseline ''middle'', SetTextAlign ''left'',
                 FillText (js ''Breaking News'') 36 (100 / 2),
                 SetFillStyle ''#000000'', FillRect 0 100 (width p) (height p - 100 - 120)] @ drawn @
                                [SetFillStyle ''#0a0a0a'', SetTextAlign ''left'',
                                 SetTextBaseline ''top'', SetFont footer_font] @ lines))))"
  unfolding drawFrame_def Let_def
  by (auto split: sum.splits option.splits)

lemma is_text_not_drawImage: "list_all is_text xs \<Longrightarrow> list_all (\<lambda>c. \<not> is_drawImage c) xs"
  by (induction xs) (auto simp: is_text_def is_drawImage_def split: canvas_op.splits)

text \<open>
  C9, amended. For every frame height other than 220, and all other inputs,
  \<open>drawFrame\<close> divides by no zero and returns the calls it made: the zoom divisor is
  \<open>max (total - 1) 1 \<ge> 1\<close>, and the aspect ratio of the image or of the video is
  computed only when both of its dimensions are nonzero. The one divisor without a
  guard is the height of the media band, \<open>height - 220\<close>. When the media is present
  and a dimension is zero, whatever the height, no division by zero happens, the media
  band is filled black and no \<open>drawImage\<close> call is made in that frame.
\<close>

theorem drawFrame_divisions:
  "(\<exists>scale. zoom_scale t total' = Inr scale) \<and> 1 \<le> max (total' - 1) 1
   \<and> (height p \<noteq> 220 \<longrightarrow> (\<exists>ops. drawFrame p mw t total' img vid = Some (Inr ops)))
   \<and> (zero_sized p img vid \<longrightarrow>
        (\<exists>before after. drawFrame p mw t total' img vid
            = Some (Inr (before @ [SetFillStyle ''#000000'', FillRect 0 100 (width p) (height p - 220)] @ after))
          \<and> list_all (\<lambda>c. \<not> is_drawImage c) (before @ after)))"
proof (intro conjI impI)
  show "\<exists>scale. zoom_scale t total' = Inr scale" by (simp add: zoom_scale_eq)
next
  show "1 \<le> max (total' - 1) 1" by simp
next
  assume "height p \<noteq> 220"
  then have "height p - 100 - 120 \<noteq> 0" by simp
  then obtain drawn where "media_band p (width p) (height p - 100 - 120) 100 t total' img vid = Inr drawn"
    using media_band_ok by blast
  moreover obtain lines truncated where
    "wrapText mw (title p) 36 (height p - 120 + 24) (width p - 36 * 2) 44 2 = Some (lines, truncated)"
    using wrapText_only_text by blast
  ultimately show "\<exists>ops. drawFrame p mw t total' img vid = Some (Inr ops)"
    by (simp add: drawFrame_unfolded)
next
  assume "zero_sized p img vid"
  then have b: "media_band p (width p) (height p - 100 - 120) 100 t total' img vid = Inr []"
    by (rule media_band_zero)
  obtain lines truncated where
    w: "wrapText mw (title p) 36 (height p - 120 + 24) (width p - 36 * 2) 44 2 = Some (lines, truncated)"
    and t: "list_all is_text lines"
    using wrapText_only_text by blast
  let ?before = "[SetFillStyle ''#ffffff'', FillRect 0 0 (width p) (height p),
                 SetFillStyle ''#e11d48'', FillRect 0 0 (width p) 100,
                 SetFillStyle ''#ffffff'', SetFont header_font,
                 SetTextBaseline ''middle'', SetTextAlign ''left'',
                 FillText (js ''Breaking News'') 36 (100 / 2)]"
  let ?after = "[SetFillStyle ''#0a0a0a'', SetTextAlign ''left'',
                                 SetTextBaseline ''top'', SetFont footer_font] @ lines"
  have "drawFrame p mw t total' img vid
      = Some (Inr (?before @ [SetFillStyle ''#000000'', FillRect 0 100 (width p) (height p - 220)] @ ?after))"
    using b w by (simp add: drawFrame_unfolded)
  moreover have "list_all (\<lambda>c. \<not> is_drawImage c) (?before @ ?after)"
    using is_text_not_drawImage[OF t] by (simp add: is_drawImage_def)
  ultimately show "\<exists>before after. drawFrame p mw t total' img vid
            = Some (Inr (before @ [SetFillStyle ''#000000'', FillRect 0 100 (width p) (height p - 220)] @ after))
          \<and> list_all (\<lambda>c. \<not> is_drawImage c) (before @ after)"
    by blast
qed

theorem drawFrame_divisions_witness:
  "height (clip ImageMedia 5) \<noteq> 220
   \<and> zero_sized (clip ImageMedia 5) (Some \<lparr> naturalWidth = 0, naturalHeight = 3 \<rparr>) None
   \<and> (\<exists>ops. drawFrame (clip ImageMedia 5) mw10 0 150 (Some \<lparr> naturalWidth = 0, naturalHeight = 3 \<rparr>) None
          = Some (Inr ops))
   \<and> (\<exists>before after. drawFrame (clip ImageMedia 5) mw10 0 150 (Some \<lparr> naturalWidth = 0, naturalHeight = 3 \<rparr>) None
            = Some (Inr (before @ [SetFillStyle ''#000000'', FillRect 0 100 1280 500] @ after))
          \<and> list_all (\<lambda>c. \<not> is_drawImage c) (before @ after))"
proof -
  have h: "height (clip ImageMedia 5) \<noteq> 220"
    "zero_sized (clip ImageMedia 5) (Some \<lparr> naturalWidth = 0, naturalHeight = 3 \<rparr>) None"
    by (simp_all add: clip_def zero_sized_def)
  have d: "width (clip ImageMedia 5) = 1280" "height (clip ImageMedia 5) - 220 = 500"
    by (simp_all add: clip_def)
  from drawFrame_divisions[of 0 150 "clip ImageMedia 5" mw10 "Some \<lparr> naturalWidth = 0, naturalHeight = 3 \<rparr>" None] h
  show ?thesis unfolding d by blast
qed

text \<open>
  C9 as stated fails for a frame height of 220: the media band has height 0, and for
  an image of 4 by 3 the band's aspect ratio \<open>mediaW / mediaH\<close> is a division by zero.
\<close>

theorem drawFrame_band_height_counterexample:
  "drawFrame \<lparr> title = js ''News'', mediaUrl = js ''/a.jpg'', mediaType = ImageMedia,
               durationSec = 5, width = 1280, height = 220 \<rparr>
     mw10 0 150 (Some \<lparr> naturalWidth = 4, naturalHeight = 3 \<rparr>) None = Some (Inl DivisionByZero)"
  by (simp add: drawFrame_def media_band_def draw_image_band_def zoom_scale_def js_div_def Let_def)

section \<open>handleGenerate: the frame loop\<close>

lemma states_append: "states (xs @ ys) = states xs @ states ys"
  by (induction xs rule: states.induct) auto

lemma draw_calls_append: "draw_calls (xs @ ys) = draw_calls xs @ draw_calls ys"
  by (induction xs rule: draw_calls.induct) auto

lemma progress_values_append: "progress_values (xs @ ys) = progress_values xs @ progress_values ys"
  by (induction xs rule: progress_values.induct) auto

lemma frame_loop_draws:
  assumes "\<forall>g. canvas_throws e g = None"
  shows "snd (frame_loop e total' f evs) = None \<and>
         draw_calls (fst (frame_loop e total' f evs)) = draw_calls evs @ map (\<lambda>g. (g, total')) [f..<total']"
  using assms
proof (induction e total' f evs rule: frame_loop.induct)
  case (1 e total' f evs)
  show ?case
  proof (cases "f < total'")
    case True
    then have u: "[f..<total'] = f # [f + 1..<total']" by (simp add: upt_conv_Cons)
    from True 1 show ?thesis
      by (subst (1 2) frame_loop.simps) (simp add: Let_def draw_calls_append u)
  next
    case False
    then show ?thesis by (subst (1 2) frame_loop.simps) simp
  qed
qed

lemma frame_loop_extends:
  "\<exists>more. fst (frame_loop e total' f evs) = evs @ more"
proof (induction e total' f evs rule: frame_loop.induct)
  case (1 e total' f evs)
  show ?case
  proof (cases "f < total'")
    case False
    then show ?thesis by (subst frame_loop.simps) simp
  next
    case True
    show ?thesis
    proof (cases "canvas_throws e f")
      case (Some err)
      with True show ?thesis by (subst frame_loop.simps) (simp add: Let_def)
    next
      case None
      let ?evs1 = "evs @ [DrawFrameCall f total']"
      let ?evs2 = "(if (f + 1) mod max 1 (total' div 50) = 0
                   then ?evs1 @ [SetState (Recording (real (f + 1) / real total'))]
                   else ?evs1)"
      have eq: "frame_loop e total' f evs = frame_loop e total' (f + 1) ?evs2"
        using True None by (subst frame_loop.simps) (simp add: Let_def)
      from "1.IH"[OF True refl None] obtain more where
        "fst (frame_loop e total' (f + 1) ?evs2) = ?evs2 @ more" by blast
      then show ?thesis unfolding eq by (cases "(f + 1) mod max 1 (total' div 50) = 0") simp_all
    qed
  qed
qed

lemma frame_loop_first_call:
  assumes "f < total'"
  shows "DrawFrameCall f total' \<in> set (fst (frame_loop e total' f evs))"
proof (cases "canvas_throws e f")
  case (Some err)
  with assms show ?thesis by (subst frame_loop.simps) (simp add: Let_def)
next
  case None
  let ?evs1 = "evs @ [DrawFrameCall f total']"
  let ?evs2 = "(if (f + 1) mod max 1 (total' div 50) = 0
               then ?evs1 @ [SetState (Recording (real (f + 1) / real total'))]
               else ?evs1)"
  have eq: "frame_loop e total' f evs = frame_loop e total' (f + 1) ?evs2"
    using assms None by (subst frame_loop.simps) (simp add: Let_def)
  obtain more where "fst (frame_loop e total' (f + 1) ?evs2) = ?evs2 @ more"
    using frame_loop_extends by blast
  then show ?thesis unfolding eq by (cases "(f + 1) mod max 1 (total' div 50) = 0") simp_all
qed

lemma frame_loop_terminal:
  "filter is_terminal (states (fst (frame_loop e total' f evs))) = filter is_terminal (states evs)"
proof (induction e total' f evs rule: frame_loop.induct)
  case (1 e total' f evs)
  show ?case
  proof (cases "f < total'")
    case False
    then show ?thesis by (subst frame_loop.simps) simp
  next
    case True
    let ?evs1 = "evs @ [DrawFrameCall f total']"
    show ?thesis
    proof (cases "canvas_throws e f")
      case (Some err)
      with True show ?thesis
        by (subst frame_loop.simps) (simp add: Let_def states_append)
    next
      case None
      let ?evs2 = "(if (f + 1) mod max 1 (total' div 50) = 0
                   then ?evs1 @ [SetState (Recording (real (f + 1) / real total'))]
                   else ?evs1)"
      have eq: "frame_loop e total' f evs = frame_loop e total' (f + 1) ?evs2"
        using True None by (subst frame_loop.simps) (simp add: Let_def)
      have "filter is_terminal (states ?evs2) = filter is_terminal (states evs)"
        by (simp add: states_append)
      with "1.IH"[OF True refl None] show ?thesis unfolding eq by simp
    qed
  qed
qed

lemma sorted_le_last: "sorted xs \<Longrightarrow> x \<in> set xs \<Longrightarrow> x \<le> last (xs :: real list)"
  by (induction xs) auto

lemma progress_inv_step:
  assumes "progress_inv total' f ps" and "f < total'"
  shows "progress_inv total' (f + 1)
           (if (f + 1) mod update_step total' = 0 then ps @ [real (f + 1) / real total'] else ps)"
proof (cases "(f + 1) mod update_step total' = 0")
  case True
  have "real (f - f mod update_step total') \<le> real (f + 1)" by simp
  then have le: "last ps \<le> real (f + 1) / real total'"
    using assms by (simp add: progress_inv_def divide_right_mono)
  have "\<forall>r \<in> set ps. r \<le> last ps"
    using assms(1) sorted_le_last unfolding progress_inv_def by blast
  with le have "\<forall>r \<in> set ps. r \<le> real (f + 1) / real total'" by fastforce
  with True assms show ?thesis
    by (simp add: progress_inv_def sorted_append)
next
  case False
  then have "Suc f mod update_step total' = Suc (f mod update_step total')"
    by (simp add: mod_Suc split: if_splits)
  then have "f + 1 - (f + 1) mod update_step total' = f - f mod update_step total'"
    by simp
  with False assms show ?thesis
    by (simp add: progress_inv_def)
qed

lemma frame_loop_progress:
  assumes "progress_inv total' f (progress_values (states evs))" and "f \<le> total'"
  shows "\<exists>k. f \<le> k \<and> k \<le> total' \<and> progress_inv total' k (progress_values (states (fst (frame_loop e total' f evs))))
           \<and> (snd (frame_loop e total' f evs) = None \<longrightarrow> k = total')"
  using assms
proof (induction e total' f evs rule: frame_loop.induct)
  case (1 e total' f evs)
  show ?case
  proof (cases "f < total'")
    case False
    with 1 show ?thesis by (subst (1 2) frame_loop.simps) auto
  next
    case True
    let ?evs1 = "evs @ [DrawFrameCall f total']"
    show ?thesis
    proof (cases "canvas_throws e f")
      case (Some err)
      with True 1 show ?thesis
        by (subst (1 2) frame_loop.simps) (auto simp: Let_def states_append)
    next
      case None
      let ?evs2 = "(if (f + 1) mod max 1 (total' div 50) = 0
                   then ?evs1 @ [SetState (Recording (real (f + 1) / real total'))]
                   else ?evs1)"
      have eq: "frame_loop e total' f evs = frame_loop e total' (f + 1) ?evs2"
        using True None by (subst frame_loop.simps) (simp add: Let_def)
      have inv2: "progress_inv total' (f + 1) (progress_values (states ?evs2))"
      proof (cases "(f + 1) mod max 1 (total' div 50) = 0")
        case True
        with progress_inv_step[OF "1.prems"(1) \<open>f < total'\<close>] show ?thesis
          by (simp add: states_append progress_values_append update_step_def)
      next
        case False
        with progress_inv_step[OF "1.prems"(1) \<open>f < total'\<close>] show ?thesis
          by (simp add: states_append progress_values_append update_step_def)
      qed
      have le2: "f + 1 \<le> total'" using True by simp
      from "1.IH"[OF True refl None inv2 le2]
      obtain k where k: "f + 1 \<le> k \<and> k \<le> total' \<and>
        progress_inv total' k (progress_values (states (fst (frame_loop e total' (f + 1) ?evs2)))) \<and>
        (snd (frame_loop e total' (f + 1) ?evs2) = None \<longrightarrow> k = total')"
        by (elim exE)
      then show ?thesis unfolding eq by (intro exI[of _ k]) simp
    qed
  qed
qed

section \<open>handleGenerate: the run\<close>

lemma totalFrames_pos: "1 \<le> totalFrames mul d"
  by (simp add: totalFrames_def)

lemma try_body_terminal:
  assumes "try_body p e = (evs, r)"
  shows "(r = Resolved \<longrightarrow> (\<exists>evs0 url size. evs = evs0 @ [SetState (Done url size)]
              \<and> filter is_terminal (states evs0) = []))
       \<and> (r \<noteq> Resolved \<longrightarrow> filter is_terminal (states evs) = [])"
proof -
  let ?T = "nat (totalFrames (double_mul e) (durationSec p))"
  have fl: "filter is_terminal (states evs2) = []"
    if "frame_loop e ?T 0 evs1 = (evs2, x)" "filter is_terminal (states evs1) = []" for evs1 evs2 x
    using frame_loop_terminal[of e ?T 0 evs1] that by simp
  show ?thesis
    using assms unfolding try_body_def Let_def
    by (auto split: if_splits awaited.splits option.splits prod.splits sum.splits
        simp: states_append dest!: fl)
qed

lemma handleGenerate_terminal:
  "(snd (handleGenerate p e) \<longrightarrow>
      (\<exists>evs0 s. fst (handleGenerate p e) = evs0 @ [SetState s] \<and> is_terminal s
           \<and> filter is_terminal (states evs0) = []))
   \<and> (\<not> snd (handleGenerate p e) \<longrightarrow> filter is_terminal (states (fst (handleGenerate p e))) = [])"
proof -
  obtain evs r where tb: "try_body p e = (evs, r)" by (cases "try_body p e")
  from try_body_terminal[OF tb] show ?thesis
    unfolding handleGenerate_def tb by (cases r) auto
qed

lemma reaches_loop_select:
  assumes "reaches_loop p e"
  obtains mimeType where "select_mimeType e = Inr mimeType"
  using assms by (auto simp: reaches_loop_def split: sum.splits)

text \<open>The \<open>try\<close> block from the frame loop on, once every step before it has succeeded.\<close>

lemma try_body_reaches:
  assumes "reaches_loop p e" and "select_mimeType e = Inr mimeType"
  shows "try_body p e =
     (let evs1 = [SetState (Recording 0), NewMediaRecorder (recorder_options mimeType)]
      in case frame_loop e (nat (totalFrames (double_mul e) (durationSec p))) 0 evs1 of
           (evs2, Some err) \<Rightarrow> (evs2, Rejected err)
         | (evs2, None) \<Rightarrow>
         (case recorder_stop e of
           Some err \<Rightarrow> (evs2, Rejected err)
         | None \<Rightarrow>
         (if \<not> stop_event e then (evs2, Pending)
          else
            (let size = sum_list (filter (\<lambda>n. n > 0) (chunk_sizes e));
                 evs3 = evs2 @ [NewBlob (if mimeType \<noteq> [] then mimeType else js ''video/webm'') size]
             in case createObjectURL e of
                  Inl err \<Rightarrow> (evs3, Rejected err)
                | Inr url \<Rightarrow> (evs3 @ [SetState (Done url size)], Resolved)))))"
  using assms unfolding try_body_def reaches_loop_def Let_def by simp

lemma try_body_setup_fails:
  assumes "\<not> reaches_loop p e"
  shows "draw_calls (fst (try_body p e)) = []"
  using assms unfolding try_body_def reaches_loop_def Let_def
  by (auto split: awaited.splits option.splits sum.splits)

lemma handleGenerate_draws: "draw_calls (fst (handleGenerate p e)) = draw_calls (fst (try_body p e))"
  by (cases "try_body p e") (auto simp: handleGenerate_def draw_calls_append split: awaited.splits)

lemma try_body_draws:
  assumes "reaches_loop p e" and "\<forall>f. canvas_throws e f = None"
  shows "draw_calls (fst (try_body p e))
       = map (\<lambda>f. (f, nat (totalFrames (double_mul e) (durationSec p))))
           [0..<nat (totalFrames (double_mul e) (durationSec p))]"
proof -
  let ?T = "nat (totalFrames (double_mul e) (durationSec p))"
  from assms(1) obtain mimeType where sel: "select_mimeType e = Inr mimeType"
    by (rule reaches_loop_select)
  let ?evs1 = "[SetState (Recording 0), NewMediaRecorder (recorder_options mimeType)]"
  obtain evs2 x where fl: "frame_loop e ?T 0 ?evs1 = (evs2, x)" by (cases "frame_loop e ?T 0 ?evs1")
  from frame_loop_draws[OF assms(2), of ?T 0 ?evs1] fl
  have x: "x = None" and d: "draw_calls evs2 = map (\<lambda>f. (f, ?T)) [0..<?T]" by simp_all
  show ?thesis
    unfolding try_body_reaches[OF assms(1) sel] Let_def fl x
    by (auto simp: d draw_calls_append split: option.splits sum.splits)
qed

lemma totalFrames_5: "mul 5 30 = 150 \<Longrightarrow> totalFrames mul 5 = 150"
  by (simp add: totalFrames_def fps_def)

text \<open>
  C3, amended. \<open>totalFrames\<close> is \<open>max 1 \<lfloor>durationSec * 30\<rfloor>\<close>, the product being the
  rounded product of the runtime; it is 150 for \<open>durationSec = 5\<close>, where the product
  is 150. A run in which every step before the frame loop succeeds and no call on the
  canvas throws calls \<open>drawFrame\<close> exactly once for each frame index
  \<open>0 .. totalFrames - 1\<close>, in increasing order and with \<open>totalFrames\<close> as second
  argument; a run in which a step before the loop fails or stays pending calls
  \<open>drawFrame\<close> not at all. Every run that settles makes exactly one transition to
  \<open>Done\<close> or \<open>Error\<close>, as its last event.
\<close>

theorem generate_frames:
  "totalFrames (double_mul e) (durationSec p) = max 1 \<lfloor>double_mul e (durationSec p) 30\<rfloor>
   \<and> (double_mul e 5 30 = 150 \<longrightarrow> totalFrames (double_mul e) 5 = 150)
   \<and> (reaches_loop p e \<and> (\<forall>f. canvas_throws e f = None) \<longrightarrow>
        draw_calls (fst (handleGenerate p e))
          = map (\<lambda>f. (f, nat (totalFrames (double_mul e) (durationSec p))))
              [0..<nat (totalFrames (double_mul e) (durationSec p))])
   \<and> (\<not> reaches_loop p e \<longrightarrow> draw_calls (fst (handleGenerate p e)) = [])
   \<and> (snd (handleGenerate p e) \<longrightarrow>
        (\<exists>evs0 s. fst (handleGenerate p e) = evs0 @ [SetState s] \<and> is_terminal s
           \<and> filter is_terminal (states evs0) = []))"
  using totalFrames_5[of "double_mul e"] try_body_draws[of p e] try_body_setup_fails[of p e]
    handleGenerate_terminal[of p e]
  by (simp add: handleGenerate_draws totalFrames_def fps_def)

lemma browser_ok_reaches: "reaches_loop (clip ImageMedia d) browser_ok"
  by (simp add: reaches_loop_def browser_ok_def clip_def prepare_media_def waitImage_def
      select_mimeType_def mimeTypeCandidates_def js_def)

lemma browser_ok_frames_5: "nat (totalFrames (double_mul browser_ok) (durationSec (clip mt 5))) = 150"
  by (simp add: clip_def browser_ok_def totalFrames_def fps_def)

theorem generate_frames_witness:
  "double_mul browser_ok 5 30 = 150
   \<and> totalFrames (double_mul browser_ok) 5 = 150
   \<and> reaches_loop (clip ImageMedia 5) browser_ok \<and> (\<forall>f. canvas_throws browser_ok f = None)
   \<and> draw_calls (fst (handleGenerate (clip ImageMedia 5) browser_ok)) = map (\<lambda>f. (f, 150)) [0..<150]
   \<and> length (draw_calls (fst (handleGenerate (clip ImageMedia 5) browser_ok))) = 150
   \<and> \<not> reaches_loop (clip ImageMedia 5) browser_no_context
   \<and> draw_calls (fst (handleGenerate (clip ImageMedia 5) browser_no_context)) = []
   \<and> snd (handleGenerate (clip ImageMedia 5) browser_no_context)
   \<and> (\<exists>evs0 s. fst (handleGenerate (clip ImageMedia 5) browser_no_context) = evs0 @ [SetState s]
         \<and> is_terminal s \<and> filter is_terminal (states evs0) = [])"
proof -
  have m: "double_mul browser_ok 5 30 = 150" by (simp add: browser_ok_def)
  have a: "reaches_loop (clip ImageMedia 5) browser_ok" by (rule browser_ok_reaches)
  have b: "\<forall>f. canvas_throws browser_ok f = None" by (simp add: browser_ok_def)
  have c: "\<not> reaches_loop (clip ImageMedia 5) browser_no_context"
    by (simp add: reaches_loop_def browser_no_context_def browser_ok_def)
  have d: "snd (handleGenerate (clip ImageMedia 5) browser_no_context)"
    by (simp add: handleGenerate_def try_body_def browser_no_context_def browser_ok_def)
  have t: "nat (totalFrames (double_mul browser_ok) (durationSec (clip ImageMedia 5))) = 150"
    by (rule browser_ok_frames_5)
  from generate_frames[of browser_ok "clip ImageMedia 5"] m
  have n: "totalFrames (double_mul browser_ok) 5 = 150" by blast
  from generate_frames[of browser_ok "clip ImageMedia 5"] a b
  have e: "draw_calls (fst (handleGenerate (clip ImageMedia 5) browser_ok)) = map (\<lambda>f. (f, 150)) [0..<150]"
    unfolding t by blast
  then have f: "length (draw_calls (fst (handleGenerate (clip ImageMedia 5) browser_ok))) = 150"
    by simp
  from generate_frames[of browser_no_context "clip ImageMedia 5"] c d
  have g: "draw_calls (fst (handleGenerate (clip ImageMedia 5) browser_no_context)) = []"
    and h: "\<exists>evs0 s. fst (handleGenerate (clip ImageMedia 5) browser_no_context) = evs0 @ [SetState s]
         \<and> is_terminal s \<and> filter is_terminal (states evs0) = []"
    by blast+
  from m n a b c d e f g h show ?thesis by blast
qed

text \<open>
  C3 as stated fails. With \<open>durationSec = 5\<close>, where \<open>totalFrames\<close> is 150, and no 2D
  context the run ends in \<open>Error\<close> after no \<open>drawFrame\<close> call at all, where the claim
  has one call for each of the 150 frames.
\<close>

theorem generate_frames_counterexample:
  "totalFrames (double_mul browser_no_context) (durationSec (clip ImageMedia 5)) = 150
   \<and> handleGenerate (clip ImageMedia 5) browser_no_context
       = ([SetState (Recording 0), SetState (Error (js ''Canvas 2D context not available.''))], True)
   \<and> draw_calls (fst (handleGenerate (clip ImageMedia 5) browser_no_context)) = []"
  by (simp add: handleGenerate_def try_body_def clip_def browser_ok_def browser_no_context_def
      totalFrames_def fps_def error_message_def js_def)

section \<open>handleGenerate: the encoding format\<close>

lemma mimeTypeCandidates_nonempty: "m \<in> set mimeTypeCandidates \<Longrightarrow> m \<noteq> []"
  by (auto simp: mimeTypeCandidates_def js_def)

text \<open>The search returns the first candidate that is supported, all before it being unsupported.\<close>

lemma find_supported_Some_iff:
  "find_supported supported ms = Inr (Some m) \<longleftrightarrow>
     (\<exists>i < length ms. ms ! i = m \<and> supported m = Inr True
        \<and> (\<forall>j < i. supported (ms ! j) = Inr False))"
proof (induction ms)
  case Nil
  show ?case by simp
next
  case (Cons c cs)
  show ?case
  proof (cases "supported c")
    case (Inl err)
    then have "\<not> (\<exists>i < length (c # cs). (c # cs) ! i = m \<and> supported m = Inr True
        \<and> (\<forall>j < i. supported ((c # cs) ! j) = Inr False))"
      by (auto simp: nth_Cons split: nat.splits)
    with Inl show ?thesis by simp
  next
    case (Inr b)
    show ?thesis
    proof (cases b)
      case True
      have "(\<exists>i < length (c # cs). (c # cs) ! i = m \<and> supported m = Inr True
        \<and> (\<forall>j < i. supported ((c # cs) ! j) = Inr False)) \<longleftrightarrow> c = m"
      proof
        assume "\<exists>i < length (c # cs). (c # cs) ! i = m \<and> supported m = Inr True
          \<and> (\<forall>j < i. supported ((c # cs) ! j) = Inr False)"
        then obtain i where i: "(c # cs) ! i = m" "\<forall>j < i. supported ((c # cs) ! j) = Inr False"
          by blast
        show "c = m"
        proof (cases i)
          case 0
          with i show ?thesis by simp
        next
          case (Suc k)
          with i(2) have "supported ((c # cs) ! 0) = Inr False" by blast
          with Inr True show ?thesis by simp
        qed
      next
        assume "c = m"
        with Inr True show "\<exists>i < length (c # cs). (c # cs) ! i = m \<and> supported m = Inr True
          \<and> (\<forall>j < i. supported ((c # cs) ! j) = Inr False)"
          by (intro exI[of _ 0]) simp
      qed
      with Inr True show ?thesis by auto
    next
      case False
      have "(\<exists>i < length (c # cs). (c # cs) ! i = m \<and> supported m = Inr True
        \<and> (\<forall>j < i. supported ((c # cs) ! j) = Inr False))
        \<longleftrightarrow> (\<exists>i < length cs. cs ! i = m \<and> supported m = Inr True
        \<and> (\<forall>j < i. supported (cs ! j) = Inr False))"
      proof
        assume "\<exists>i < length (c # cs). (c # cs) ! i = m \<and> supported m = Inr True
          \<and> (\<forall>j < i. supported ((c # cs) ! j) = Inr False)"
        then obtain i where i: "i < length (c # cs)" "(c # cs) ! i = m" "supported m = Inr True"
          "\<forall>j < i. supported ((c # cs) ! j) = Inr False"
          by blast
        show "\<exists>i < length cs. cs ! i = m \<and> supported m = Inr True
          \<and> (\<forall>j < i. supported (cs ! j) = Inr False)"
        proof (cases i)
          case 0
          with i Inr False show ?thesis by simp
        next
          case (Suc k)
          have "\<forall>j < k. supported (cs ! j) = Inr False"
          proof (intro allI impI)
            fix j assume "j < k"
            then have "Suc j < i" using Suc by simp
            with i(4) have "supported ((c # cs) ! Suc j) = Inr False" by blast
            then show "supported (cs ! j) = Inr False" by simp
          qed
          with i Suc show ?thesis by (intro exI[of _ k]) simp
        qed
      next
        assume "\<exists>i < length cs. cs ! i = m \<and> supported m = Inr True
          \<and> (\<forall>j < i. supported (cs ! j) = Inr False)"
        then obtain i where i: "i < length cs" "cs ! i = m" "supported m = Inr True"
          "\<forall>j < i. supported (cs ! j) = Inr False"
          by blast
        have "\<forall>j < Suc i. supported ((c # cs) ! j) = Inr False"
          using i(4) Inr False by (auto simp: nth_Cons split: nat.splits)
        with i show "\<exists>i < length (c # cs). (c # cs) ! i = m \<and> supported m = Inr True
          \<and> (\<forall>j < i. supported ((c # cs) ! j) = Inr False)"
          by (intro exI[of _ "Suc i"]) simp
      qed
      with Inr False Cons.IH show ?thesis by simp
    qed
  qed
qed

lemma find_supported_None:
  "\<forall>c \<in> set ms. supported c = Inr False \<Longrightarrow> find_supported supported ms = Inr None"
  by (induction ms) auto

lemma find_supported_in_set:
  "find_supported supported ms = Inr (Some m) \<Longrightarrow> m \<in> set ms"
  by (auto simp: find_supported_Some_iff)

text \<open>The option passed to the constructor is the candidate found, if one is found.\<close>

lemma recorder_options_select:
  assumes "find_supported (isTypeSupported e) mimeTypeCandidates = Inr found"
  shows "\<exists>mimeType. select_mimeType e = Inr mimeType \<and> recorder_options mimeType = found
       \<and> (if mimeType \<noteq> [] then mimeType else js ''video/webm'')
          = (case found of Some m \<Rightarrow> m | None \<Rightarrow> js ''video/webm'')"
proof (cases found)
  case None
  with assms show ?thesis by (simp add: select_mimeType_def recorder_options_def)
next
  case (Some m)
  with assms have "m \<in> set mimeTypeCandidates" by (auto dest: find_supported_in_set)
  then have "m \<noteq> []" by (rule mimeTypeCandidates_nonempty)
  with Some assms show ?thesis by (simp add: select_mimeType_def recorder_options_def)
qed

lemma handleGenerate_events: "set (fst (try_body p e)) \<subseteq> set (fst (handleGenerate p e))"
  by (cases "try_body p e") (auto simp: handleGenerate_def split: awaited.splits)

lemma try_body_recorder:
  assumes "reaches_probe p e" and "select_mimeType e = Inr mimeType"
  shows "NewMediaRecorder (recorder_options mimeType) \<in> set (fst (try_body p e))"
proof -
  let ?T = "nat (totalFrames (double_mul e) (durationSec p))"
  let ?evs1 = "[SetState (Recording 0), NewMediaRecorder (recorder_options mimeType)]"
  obtain more where m: "fst (frame_loop e ?T 0 ?evs1) = ?evs1 @ more"
    using frame_loop_extends by blast
  obtain evs2 x where fl: "frame_loop e ?T 0 ?evs1 = (evs2, x)" by (cases "frame_loop e ?T 0 ?evs1")
  with m have "evs2 = ?evs1 @ more" by simp
  then show ?thesis
    using assms fl unfolding try_body_def reaches_probe_def Let_def
    by (auto split: option.splits sum.splits)
qed

lemma try_body_probe_throws:
  assumes "reaches_probe p e" and "find_supported (isTypeSupported e) mimeTypeCandidates = Inl err"
  shows "handleGenerate p e
       = ([SetState (Recording 0), SetState (Error (error_message err))], True)"
proof -
  from assms(2) have "select_mimeType e = Inl err" by (simp add: select_mimeType_def)
  with assms(1) have "try_body p e = ([SetState (Recording 0)], Rejected err)"
    by (simp add: try_body_def reaches_probe_def)
  then show ?thesis by (simp add: handleGenerate_def)
qed

lemma try_body_constructor_throws:
  assumes "reaches_probe p e" and "find_supported (isTypeSupported e) mimeTypeCandidates = Inr found"
    and "newMediaRecorder e found = Some err"
  shows "handleGenerate p e
       = ([SetState (Recording 0), NewMediaRecorder found, SetState (Error (error_message err))], True)"
proof -
  from recorder_options_select[OF assms(2)] obtain mimeType where
    "select_mimeType e = Inr mimeType" "recorder_options mimeType = found"
    by blast
  with assms(1,3)
  have "try_body p e = ([SetState (Recording 0), NewMediaRecorder found], Rejected err)"
    by (simp add: try_body_def reaches_probe_def)
  then show ?thesis by (simp add: handleGenerate_def)
qed

lemma try_body_first_frame:
  assumes "reaches_loop p e"
  shows "DrawFrameCall 0 (nat (totalFrames (double_mul e) (durationSec p))) \<in> set (fst (try_body p e))"
proof -
  let ?T = "nat (totalFrames (double_mul e) (durationSec p))"
  from assms obtain mimeType where sel: "select_mimeType e = Inr mimeType"
    by (rule reaches_loop_select)
  let ?evs1 = "[SetState (Recording 0), NewMediaRecorder (recorder_options mimeType)]"
  have "0 < ?T" using totalFrames_pos[of "double_mul e" "durationSec p"] by simp
  then have c: "DrawFrameCall 0 ?T \<in> set (fst (frame_loop e ?T 0 ?evs1))"
    by (rule frame_loop_first_call)
  obtain evs2 x where fl: "frame_loop e ?T 0 ?evs1 = (evs2, x)" by (cases "frame_loop e ?T 0 ?evs1")
  with c have "DrawFrameCall 0 ?T \<in> set evs2" by simp
  then show ?thesis
    unfolding try_body_reaches[OF assms sel] Let_def fl
    by (auto split: option.splits sum.splits)
qed

lemma try_body_blob:
  assumes "reaches_loop p e" and "recording_completes e" and "select_mimeType e = Inr mimeType"
  shows "NewBlob (if mimeType \<noteq> [] then mimeType else js ''video/webm'') (blob_size e)
           \<in> set (fst (try_body p e))"
proof -
  let ?T = "nat (totalFrames (double_mul e) (durationSec p))"
  let ?evs1 = "[SetState (Recording 0), NewMediaRecorder (recorder_options mimeType)]"
  from assms(2) have nt: "\<forall>f. canvas_throws e f = None" and st: "recorder_stop e = None" "stop_event e"
    by (simp_all add: recording_completes_def)
  obtain evs2 x where fl: "frame_loop e ?T 0 ?evs1 = (evs2, x)" by (cases "frame_loop e ?T 0 ?evs1")
  from frame_loop_draws[OF nt, of ?T 0 ?evs1] fl have x: "x = None" by simp
  show ?thesis
    unfolding try_body_reaches[OF assms(1,3)] Let_def fl x
    using st by (auto simp: blob_size_def split: sum.splits)
qed

text \<open>
  C4, amended. When the run gets as far as probing the formats and no probe throws, the
  format passed to the recorder's constructor is the first entry of the candidate list
  that the browser reports as supported. If every candidate is reported unsupported,
  the recorder is constructed without a format option, and if that and \<open>start\<close>
  succeed the frame loop runs: frame 0 is drawn. When the recording then completes,
  the artifact is tagged with the format selected, and with \<open>video/webm\<close> when none was.
  The run goes to \<open>Error\<close> before any frame when a probe throws (\<open>MediaRecorder\<close> is
  missing), before the recorder is constructed, and when the constructor throws.
\<close>

theorem mime_selection:
  "(reaches_probe p e \<and> find_supported (isTypeSupported e) mimeTypeCandidates = Inr found \<longrightarrow>
      NewMediaRecorder found \<in> set (fst (handleGenerate p e)))
   \<and> (find_supported (isTypeSupported e) mimeTypeCandidates = Inr (Some m) \<longleftrightarrow>
        (\<exists>i < length mimeTypeCandidates. mimeTypeCandidates ! i = m \<and> isTypeSupported e m = Inr True
            \<and> (\<forall>j < i. isTypeSupported e (mimeTypeCandidates ! j) = Inr False)))
   \<and> (reaches_loop p e \<and> (\<forall>c \<in> set mimeTypeCandidates. isTypeSupported e c = Inr False) \<longrightarrow>
        NewMediaRecorder None \<in> set (fst (handleGenerate p e))
        \<and> DrawFrameCall 0 (nat (totalFrames (double_mul e) (durationSec p)))
            \<in> set (fst (handleGenerate p e)))
   \<and> (reaches_loop p e \<and> recording_completes e
        \<and> find_supported (isTypeSupported e) mimeTypeCandidates = Inr found \<longrightarrow>
        NewBlob (case found of Some m \<Rightarrow> m | None \<Rightarrow> js ''video/webm'') (blob_size e)
          \<in> set (fst (handleGenerate p e)))
   \<and> (reaches_loop p e \<and> recording_completes e
        \<and> (\<forall>c \<in> set mimeTypeCandidates. isTypeSupported e c = Inr False) \<longrightarrow>
        NewBlob (js ''video/webm'') (blob_size e) \<in> set (fst (handleGenerate p e)))
   \<and> (reaches_probe p e \<and> find_supported (isTypeSupported e) mimeTypeCandidates = Inl err \<longrightarrow>
        handleGenerate p e = ([SetState (Recording 0), SetState (Error (error_message err))], True))
   \<and> (reaches_probe p e \<and> find_supported (isTypeSupported e) mimeTypeCandidates = Inr found
        \<and> newMediaRecorder e found = Some err \<longrightarrow>
        handleGenerate p e
          = ([SetState (Recording 0), NewMediaRecorder found, SetState (Error (error_message err))], True))"
proof (intro conjI impI)
  assume a: "reaches_probe p e \<and> find_supported (isTypeSupported e) mimeTypeCandidates = Inr found"
  then obtain mimeType where "select_mimeType e = Inr mimeType" "recorder_options mimeType = found"
    using recorder_options_select by blast
  with a show "NewMediaRecorder found \<in> set (fst (handleGenerate p e))"
    using try_body_recorder[of p e mimeType] handleGenerate_events[of p e] by auto
next
  show "find_supported (isTypeSupported e) mimeTypeCandidates = Inr (Some m) \<longleftrightarrow>
        (\<exists>i < length mimeTypeCandidates. mimeTypeCandidates ! i = m \<and> isTypeSupported e m = Inr True
            \<and> (\<forall>j < i. isTypeSupported e (mimeTypeCandidates ! j) = Inr False))"
    by (rule find_supported_Some_iff)
next
  assume a: "reaches_loop p e \<and> (\<forall>c \<in> set mimeTypeCandidates. isTypeSupported e c = Inr False)"
  then have f: "find_supported (isTypeSupported e) mimeTypeCandidates = Inr None"
    by (simp add: find_supported_None)
  then obtain mimeType where "select_mimeType e = Inr mimeType" "recorder_options mimeType = None"
    using recorder_options_select by blast
  moreover from a have "reaches_probe p e" by (simp add: reaches_loop_def reaches_probe_def)
  ultimately show "NewMediaRecorder None \<in> set (fst (handleGenerate p e))"
    using try_body_recorder[of p e mimeType] handleGenerate_events[of p e] by auto
next
  assume "reaches_loop p e \<and> (\<forall>c \<in> set mimeTypeCandidates. isTypeSupported e c = Inr False)"
  then show "DrawFrameCall 0 (nat (totalFrames (double_mul e) (durationSec p)))
      \<in> set (fst (handleGenerate p e))"
    using try_body_first_frame[of p e] handleGenerate_events[of p e] by auto
next
  assume a: "reaches_loop p e \<and> recording_completes e
        \<and> find_supported (isTypeSupported e) mimeTypeCandidates = Inr found"
  then obtain mimeType where s: "select_mimeType e = Inr mimeType"
    and t: "(if mimeType \<noteq> [] then mimeType else js ''video/webm'')
          = (case found of Some m \<Rightarrow> m | None \<Rightarrow> js ''video/webm'')"
    using recorder_options_select by blast
  from a s have "NewBlob (if mimeType \<noteq> [] then mimeType else js ''video/webm'') (blob_size e)
       \<in> set (fst (try_body p e))"
    using try_body_blob[of p e mimeType] by blast
  then show "NewBlob (case found of Some m \<Rightarrow> m | None \<Rightarrow> js ''video/webm'') (blob_size e)
          \<in> set (fst (handleGenerate p e))"
    unfolding t using handleGenerate_events[of p e] by auto
next
  assume a: "reaches_loop p e \<and> recording_completes e
        \<and> (\<forall>c \<in> set mimeTypeCandidates. isTypeSupported e c = Inr False)"
  then have f: "find_supported (isTypeSupported e) mimeTypeCandidates = Inr None"
    by (simp add: find_supported_None)
  then obtain mimeType where s: "select_mimeType e = Inr mimeType"
    and t: "(if mimeType \<noteq> [] then mimeType else js ''video/webm'') = js ''video/webm''"
    using recorder_options_select[OF f] by auto
  from a s have "NewBlob (if mimeType \<noteq> [] then mimeType else js ''video/webm'') (blob_size e)
       \<in> set (fst (try_body p e))"
    using try_body_blob[of p e mimeType] by blast
  then show "NewBlob (js ''video/webm'') (blob_size e) \<in> set (fst (handleGenerate p e))"
    unfolding t using handleGenerate_events[of p e] by auto
next
  assume "reaches_probe p e \<and> find_supported (isTypeSupported e) mimeTypeCandidates = Inl err"
  then show "handleGenerate p e = ([SetState (Recording 0), SetState (Error (error_message err))], True)"
    using try_body_probe_throws by blast
next
  assume "reaches_probe p e \<and> find_supported (isTypeSupported e) mimeTypeCandidates = Inr found
        \<and> newMediaRecorder e found = Some err"
  then show "handleGenerate p e
      = ([SetState (Recording 0), NewMediaRecorder found, SetState (Error (error_message err))], True)"
    using try_body_constructor_throws by blast
qed

lemma browser_no_codec_reaches: "reaches_loop (clip ImageMedia d) browser_no_codec"
  by (simp add: reaches_loop_def browser_no_codec_def browser_ok_def clip_def prepare_media_def
      waitImage_def select_mimeType_def mimeTypeCandidates_def recorder_options_def)

theorem mime_selection_witness:
  "reaches_probe (clip ImageMedia 5) browser_ok
   \<and> find_supported (isTypeSupported browser_ok) mimeTypeCandidates = Inr (Some (js ''video/webm''))
   \<and> NewMediaRecorder (Some (js ''video/webm'')) \<in> set (fst (handleGenerate (clip ImageMedia 5) browser_ok))
   \<and> reaches_loop (clip ImageMedia 5) browser_ok \<and> recording_completes browser_ok
   \<and> NewBlob (js ''video/webm'') (blob_size browser_ok)
        \<in> set (fst (handleGenerate (clip ImageMedia 5) browser_ok))
   \<and> reaches_loop (clip ImageMedia 5) browser_no_codec \<and> recording_completes browser_no_codec
   \<and> filter (\<lambda>c. isTypeSupported browser_no_codec c \<noteq> Inr False) mimeTypeCandidates = []
   \<and> NewMediaRecorder None \<in> set (fst (handleGenerate (clip ImageMedia 5) browser_no_codec))
   \<and> DrawFrameCall 0 150 \<in> set (fst (handleGenerate (clip ImageMedia 5) browser_no_codec))
   \<and> NewBlob (js ''video/webm'') (blob_size browser_no_codec)
        \<in> set (fst (handleGenerate (clip ImageMedia 5) browser_no_codec))
   \<and> reaches_probe (clip ImageMedia 5) browser_no_recorder
   \<and> find_supported (isTypeSupported browser_no_recorder) mimeTypeCandidates
        = Inl (Some (js ''MediaRecorder is not defined''))
   \<and> handleGenerate (clip ImageMedia 5) browser_no_recorder
        = ([SetState (Recording 0), SetState (Error (js ''MediaRecorder is not defined''))], True)
   \<and> reaches_probe (clip ImageMedia 5) browser_no_encoder
   \<and> find_supported (isTypeSupported browser_no_encoder) mimeTypeCandidates
        = Inr (Some (js ''video/webm''))
   \<and> newMediaRecorder browser_no_encoder (Some (js ''video/webm''))
        = Some (Some (js ''Failed to construct MediaRecorder''))
   \<and> handleGenerate (clip ImageMedia 5) browser_no_encoder
        = ([SetState (Recording 0), NewMediaRecorder (Some (js ''video/webm'')),
            SetState (Error (js ''Failed to construct MediaRecorder''))], True)"
proof -
  have a: "reaches_probe (clip ImageMedia 5) browser_ok"
    by (simp add: reaches_probe_def browser_ok_def clip_def prepare_media_def waitImage_def)
  have b: "find_supported (isTypeSupported browser_ok) mimeTypeCandidates = Inr (Some (js ''video/webm''))"
    by (simp add: browser_ok_def mimeTypeCandidates_def js_def)
  have c: "reaches_loop (clip ImageMedia 5) browser_no_codec" by (rule browser_no_codec_reaches)
  have c': "reaches_loop (clip ImageMedia 5) browser_ok" by (rule browser_ok_reaches)
  have d: "\<forall>c \<in> set mimeTypeCandidates. isTypeSupported browser_no_codec c = Inr False"
    by (simp add: browser_no_codec_def)
  then have d': "filter (\<lambda>c. isTypeSupported browser_no_codec c \<noteq> Inr False) mimeTypeCandidates = []"
    by (simp add: filter_empty_conv)
  have r: "recording_completes browser_ok" "recording_completes browser_no_codec"
    by (simp_all add: recording_completes_def browser_ok_def browser_no_codec_def)
  have t: "nat (totalFrames (double_mul browser_no_codec) (durationSec (clip ImageMedia 5))) = 150"
    by (simp add: clip_def browser_no_codec_def browser_ok_def totalFrames_def fps_def)
  have p: "reaches_probe (clip ImageMedia 5) browser_no_recorder"
    by (simp add: reaches_probe_def browser_no_recorder_def browser_ok_def clip_def prepare_media_def
        waitImage_def)
  have q: "find_supported (isTypeSupported browser_no_recorder) mimeTypeCandidates
        = Inl (Some (js ''MediaRecorder is not defined''))"
    by (simp add: browser_no_recorder_def mimeTypeCandidates_def)
  have em: "error_message (Some (js ''MediaRecorder is not defined'')) = js ''MediaRecorder is not defined''"
    by (simp add: error_message_def js_def)
  note ok = mime_selection[of "clip ImageMedia 5" browser_ok "Some (js ''video/webm'')" "js ''video/webm''" None]
  note nc = mime_selection[of "clip ImageMedia 5" browser_no_codec None "js ''video/webm''" None]
  note nr = mime_selection[of "clip ImageMedia 5" browser_no_recorder None "js ''video/webm''"
      "Some (js ''MediaRecorder is not defined'')"]
  from ok a b
  have e: "NewMediaRecorder (Some (js ''video/webm'')) \<in> set (fst (handleGenerate (clip ImageMedia 5) browser_ok))"
    by blast
  from ok c' r(1) b
  have e': "NewBlob (case Some (js ''video/webm'') of Some m \<Rightarrow> m | None \<Rightarrow> js ''video/webm'')
      (blob_size browser_ok) \<in> set (fst (handleGenerate (clip ImageMedia 5) browser_ok))"
    by blast
  from nc c d
  have f: "NewMediaRecorder None \<in> set (fst (handleGenerate (clip ImageMedia 5) browser_no_codec))"
    and g: "DrawFrameCall 0 150 \<in> set (fst (handleGenerate (clip ImageMedia 5) browser_no_codec))"
    unfolding t by blast+
  from nc c r(2) d
  have h: "NewBlob (js ''video/webm'') (blob_size browser_no_codec)
        \<in> set (fst (handleGenerate (clip ImageMedia 5) browser_no_codec))"
    by blast
  from nr p q
  have "handleGenerate (clip ImageMedia 5) browser_no_recorder
        = ([SetState (Recording 0),
            SetState (Error (error_message (Some (js ''MediaRecorder is not defined''))))], True)"
    by blast
  then have i: "handleGenerate (clip ImageMedia 5) browser_no_recorder
        = ([SetState (Recording 0), SetState (Error (js ''MediaRecorder is not defined''))], True)"
    by (simp only: em)
  from e' have e'': "NewBlob (js ''video/webm'') (blob_size browser_ok)
        \<in> set (fst (handleGenerate (clip ImageMedia 5) browser_ok))"
    by simp
  have u: "reaches_probe (clip ImageMedia 5) browser_no_encoder"
    by (simp add: reaches_probe_def browser_no_encoder_def browser_ok_def clip_def prepare_media_def
        waitImage_def)
  have v: "find_supported (isTypeSupported browser_no_encoder) mimeTypeCandidates
        = Inr (Some (js ''video/webm''))"
    by (simp add: browser_no_encoder_def browser_ok_def mimeTypeCandidates_def js_def)
  have w: "newMediaRecorder browser_no_encoder (Some (js ''video/webm''))
        = Some (Some (js ''Failed to construct MediaRecorder''))"
    by (simp add: browser_no_encoder_def)
  have em': "error_message (Some (js ''Failed to construct MediaRecorder''))
        = js ''Failed to construct MediaRecorder''"
    by (simp add: error_message_def js_def)
  from mime_selection[of "clip ImageMedia 5" browser_no_encoder "Some (js ''video/webm'')"
      "js ''video/webm''" "Some (js ''Failed to construct MediaRecorder'')"] u v w
  have "handleGenerate (clip ImageMedia 5) browser_no_encoder
        = ([SetState (Recording 0), NewMediaRecorder (Some (js ''video/webm'')),
            SetState (Error (error_message (Some (js ''Failed to construct MediaRecorder''))))], True)"
    by blast
  then have x: "handleGenerate (clip ImageMedia 5) browser_no_encoder
        = ([SetState (Recording 0), NewMediaRecorder (Some (js ''video/webm'')),
            SetState (Error (js ''Failed to construct MediaRecorder''))], True)"
    by (simp only: em')
  from a b c c' d' r e e'' f g h p q i u v w x show ?thesis by blast
qed

lemma totalFrames_1: "totalFrames (\<lambda>a b. a * b) (1 / 16) = 1"
  by (simp add: totalFrames_def fps_def)

lemma totalFrames_3: "totalFrames (\<lambda>a b. a * b) (1 / 8) = 3"
  by (simp add: totalFrames_def fps_def)

text \<open>
  C4 as stated fails. In a browser that reports every candidate as unsupported, a clip
  of one frame is drawn, the blob is tagged \<open>video/webm\<close> and the run ends in \<open>Done\<close>.
\<close>

theorem mime_unsupported_counterexample:
  "handleGenerate (clip ImageMedia (1 / 16)) browser_no_codec
     = ([SetState (Recording 0), NewMediaRecorder None, DrawFrameCall 0 1, SetState (Recording 1),
         NewBlob (js ''video/webm'') 1500, SetState (Done (js ''blob:1'') 1500)], True)"
  by (simp add: handleGenerate_def try_body_def clip_def browser_ok_def browser_no_codec_def
       prepare_media_def waitImage_def
       select_mimeType_def recorder_options_def mimeTypeCandidates_def totalFrames_1
       frame_loop.simps)

text \<open>
  Whatever is thrown or rejected inside the \<open>try\<close> block ends the run in \<open>Error\<close> with
  a message that is not empty, and no \<open>Done\<close> state is set in that run.
\<close>

lemma rejected_run_ends_in_error:
  assumes "try_body p e = (evs, Rejected err)"
  shows "handleGenerate p e = (evs @ [SetState (Error (error_message err))], True)
       \<and> error_message err \<noteq> []
       \<and> filter is_terminal (states evs) = []"
proof -
  have "error_message err \<noteq> []"
    by (cases err) (auto simp: error_message_def js_def)
  moreover from try_body_terminal[OF assms] have "filter is_terminal (states evs) = []" by simp
  ultimately show ?thesis by (simp add: handleGenerate_def assms)
qed

text \<open>
  C5. A video that fails to load: \<open>play\<close> rejects and is swallowed, the element fires
  \<open>error\<close>, and \<open>waitVideoReady\<close> has no handler for it. The run sets \<open>Recording 0\<close> and
  nothing more: no \<open>Error\<close> state follows, and the call never settles. An image that
  fails to load ends the run in \<open>Error\<close>, through the \<open>onerror\<close> handler of \<open>waitImage\<close>.
\<close>

theorem video_load_error_hangs:
  "handleGenerate (clip VideoMedia 5) browser_video_error = ([SetState (Recording 0)], False)
   \<and> handleGenerate (clip ImageMedia 5) browser_image_error
       = ([SetState (Recording 0), SetState (Error (js ''Failed to load image for canvas.''))], True)"
  by (simp add: handleGenerate_def try_body_def clip_def browser_ok_def browser_video_error_def
      browser_image_error_def prepare_media_def waitVideoReady_def waitImage_def error_message_def js_def)

section \<open>handleGenerate: progress\<close>

lemma progress_inv_start: "progress_inv total' 0 [0]"
  by (simp add: progress_inv_def)

lemma try_body_progress:
  assumes "try_body p e = (evs, r)"
  shows "\<exists>k \<le> nat (totalFrames (double_mul e) (durationSec p)).
           progress_inv (nat (totalFrames (double_mul e) (durationSec p))) k (progress_values (states evs))
         \<and> (r = Resolved \<longrightarrow> k = nat (totalFrames (double_mul e) (durationSec p)))"
proof -
  let ?T = "nat (totalFrames (double_mul e) (durationSec p))"
  have start: "progress_inv ?T 0 (progress_values (states evs)) \<and> r \<noteq> Resolved"
    if "evs = [SetState (Recording 0)] \<or> (\<exists>opt. evs = [SetState (Recording 0), NewMediaRecorder opt])"
      "r \<noteq> Resolved"
    using that progress_inv_start by auto
  have fl: "\<exists>k \<le> ?T. progress_inv ?T k (progress_values (states evs2)) \<and> (x = None \<longrightarrow> k = ?T)"
    if "frame_loop e ?T 0 [SetState (Recording 0), NewMediaRecorder opt] = (evs2, x)" for evs2 x opt
  proof -
    have "progress_inv ?T 0 (progress_values (states [SetState (Recording 0), NewMediaRecorder opt]))"
      using progress_inv_start by simp
    from frame_loop_progress[OF this, of e] that show ?thesis by auto
  qed
  show ?thesis
  proof (cases "reaches_loop p e")
    case False
    then have "(evs = [SetState (Recording 0)] \<or> (\<exists>opt. evs = [SetState (Recording 0), NewMediaRecorder opt]))
        \<and> r \<noteq> Resolved"
      using assms unfolding try_body_def reaches_loop_def Let_def
      by (auto split: awaited.splits option.splits if_splits sum.splits)
    with start show ?thesis by blast
  next
    case True
    then obtain mimeType where sel: "select_mimeType e = Inr mimeType"
      by (rule reaches_loop_select)
    obtain evs2 x where f: "frame_loop e ?T 0
         [SetState (Recording 0), NewMediaRecorder (recorder_options mimeType)] = (evs2, x)"
      by (cases "frame_loop e ?T 0 [SetState (Recording 0), NewMediaRecorder (recorder_options mimeType)]")
    from fl[OF f] obtain k where k: "k \<le> ?T" "progress_inv ?T k (progress_values (states evs2))"
      "x = None \<longrightarrow> k = ?T" by blast
    have "progress_values (states evs) = progress_values (states evs2) \<and> (r = Resolved \<longrightarrow> x = None)"
      using assms unfolding try_body_reaches[OF True sel] Let_def f
      by (auto split: option.splits sum.splits if_splits simp: states_append progress_values_append)
    with k show ?thesis by auto
  qed
qed

lemma progress_inv_final:
  assumes "progress_inv total' total' ps" and "0 < total'"
  shows "1 - real (update_step total') / real total' \<le> last ps"
proof -
  have "total' mod update_step total' \<le> update_step total'"
    by (simp add: update_step_def)
  moreover have "total' mod update_step total' \<le> total'" by simp
  ultimately have "real total' - real (update_step total') \<le> real (total' - total' mod update_step total')"
    by (simp add: of_nat_diff)
  then have "(real total' - real (update_step total')) / real total'
      \<le> real (total' - total' mod update_step total') / real total'"
    by (rule divide_right_mono) simp
  moreover have "(real total' - real (update_step total')) / real total'
      = 1 - real (update_step total') / real total'"
    using assms(2) by (simp add: diff_divide_distrib)
  ultimately show ?thesis using assms(1) by (simp add: progress_inv_def)
qed

text \<open>
  C6. In every run the progress values reported, starting with the initial 0, are
  non-decreasing and lie between 0 and 1; and in a run that reaches \<open>Done\<close> the last
  one reported is at least \<open>1 - updateStep / totalFrames\<close>.
\<close>

theorem progress_monotone:
  "progress_values (states (fst (handleGenerate p e))) \<noteq> []
   \<and> hd (progress_values (states (fst (handleGenerate p e)))) = 0
   \<and> sorted (progress_values (states (fst (handleGenerate p e))))
   \<and> (\<forall>r \<in> set (progress_values (states (fst (handleGenerate p e)))). 0 \<le> r \<and> r \<le> 1)
   \<and> ((\<exists>url size. SetState (Done url size) \<in> set (fst (handleGenerate p e))) \<longrightarrow>
        1 - real (update_step (nat (totalFrames (double_mul e) (durationSec p)))) / real (nat (totalFrames (double_mul e) (durationSec p)))
          \<le> last (progress_values (states (fst (handleGenerate p e)))))"
proof -
  let ?T = "nat (totalFrames (double_mul e) (durationSec p))"
  obtain evs r where tb: "try_body p e = (evs, r)" by (cases "try_body p e")
  from try_body_progress[OF tb] obtain k where
    inv: "progress_inv ?T k (progress_values (states evs))" and k: "r = Resolved \<longrightarrow> k = ?T"
    by blast
  have pv: "progress_values (states (fst (handleGenerate p e))) = progress_values (states evs)"
    unfolding handleGenerate_def tb by (cases r) (simp_all add: states_append progress_values_append)
  have T: "0 < ?T" using totalFrames_pos[of "double_mul e" "durationSec p"] by simp
  have resolved: "r = Resolved" if "SetState (Done url size) \<in> set (fst (handleGenerate p e))" for url size
  proof (rule ccontr)
    assume nr: "r \<noteq> Resolved"
    with try_body_terminal[OF tb] have nt: "filter is_terminal (states evs) = []" by simp
    have "SetState (Done url size) \<in> set evs"
      using that nr unfolding handleGenerate_def tb by (cases r) auto
    then have "Done url size \<in> set (states evs)"
      by (induction evs rule: states.induct) auto
    then have "Done url size \<in> set (filter is_terminal (states evs))" by simp
    with nt show False by simp
  qed
  have final: "1 - real (update_step ?T) / real ?T \<le> last (progress_values (states evs))"
    if "\<exists>url size. SetState (Done url size) \<in> set (fst (handleGenerate p e))"
  proof -
    from that resolved have "r = Resolved" by blast
    with k inv have "progress_inv ?T ?T (progress_values (states evs))" by simp
    from progress_inv_final[OF this T] show ?thesis .
  qed
  from inv final show ?thesis
    unfolding pv by (simp add: progress_inv_def)
qed

theorem progress_monotone_witness:
  "SetState (Done (js ''blob:1'') 1500) \<in> set (fst (handleGenerate (clip ImageMedia (1 / 8)) browser_ok))
   \<and> progress_values (states (fst (handleGenerate (clip ImageMedia (1 / 8)) browser_ok))) = [0, 1 / 3, 2 / 3, 1]
   \<and> sorted (progress_values (states (fst (handleGenerate (clip ImageMedia (1 / 8)) browser_ok))))
   \<and> 1 - real (update_step 3) / real (3::nat)
          \<le> last (progress_values (states (fst (handleGenerate (clip ImageMedia (1 / 8)) browser_ok))))"
proof -
  have run: "handleGenerate (clip ImageMedia (1 / 8)) browser_ok
     = ([SetState (Recording 0), NewMediaRecorder (Some (js ''video/webm'')),
         DrawFrameCall 0 3, SetState (Recording (1 / 3)),
         DrawFrameCall 1 3, SetState (Recording (2 / 3)),
         DrawFrameCall 2 3, SetState (Recording 1),
         NewBlob (js ''video/webm'') 1500, SetState (Done (js ''blob:1'') 1500)], True)"
    by (simp add: handleGenerate_def try_body_def clip_def browser_ok_def
       prepare_media_def waitImage_def js_def
       select_mimeType_def recorder_options_def mimeTypeCandidates_def totalFrames_3
       frame_loop.simps Let_def numeral_2_eq_2)
  have a: "SetState (Done (js ''blob:1'') 1500) \<in> set (fst (handleGenerate (clip ImageMedia (1 / 8)) browser_ok))"
    unfolding run by simp
  have b: "progress_values (states (fst (handleGenerate (clip ImageMedia (1 / 8)) browser_ok))) = [0, 1 / 3, 2 / 3, 1]"
    unfolding run by simp
  have t: "nat (totalFrames (double_mul browser_ok) (durationSec (clip ImageMedia (1 / 8)))) = 3"
    by (simp add: clip_def browser_ok_def totalFrames_3)
  from progress_monotone[of "clip ImageMedia (1 / 8)" browser_ok] a
  have "sorted (progress_values (states (fst (handleGenerate (clip ImageMedia (1 / 8)) browser_ok))))"
    and "1 - real (update_step 3) / real (3::nat)
          \<le> last (progress_values (states (fst (handleGenerate (clip ImageMedia (1 / 8)) browser_ok))))"
    unfolding t by blast+
  with a b show ?thesis by blast
qed


section \<open>The feed parsers: the media type\<close>

lemma index_labels_step: "index_labels labels = foldl index_step Map.empty (enumerate 0 labels)"
  by (simp add: index_labels_def)

lemma foldl_index_sound:
  "foldl index_step m (enumerate n labels) key = Some i \<Longrightarrow>
     m key = Some i \<or> (n \<le> i \<and> i < n + length labels \<and> normalizeLabel (labels ! (i - n)) = key)"
proof (induction labels arbitrary: m n)
  case Nil
  then show ?case by simp
next
  case (Cons l ls)
  from Cons.prems have "foldl index_step (index_step m (n, l)) (enumerate (Suc n) ls) key = Some i"
    by simp
  from Cons.IH[OF this] show ?case
  proof
    assume "index_step m (n, l) key = Some i"
    then show ?thesis
      by (auto simp: index_step_def Let_def split: if_splits)
  next
    assume "Suc n \<le> i \<and> i < Suc n + length ls \<and> normalizeLabel (ls ! (i - Suc n)) = key"
    moreover from this have "i - n = Suc (i - Suc n)" by arith
    ultimately show ?thesis by simp
  qed
qed

lemma foldl_index_complete:
  "m key \<noteq> None \<or> (key \<noteq> [] \<and> (\<exists>j < length labels. normalizeLabel (labels ! j) = key)) \<Longrightarrow>
     foldl index_step m (enumerate n labels) key \<noteq> None"
proof (induction labels arbitrary: m n)
  case Nil
  then show ?case by simp
next
  case (Cons l ls)
  have "index_step m (n, l) key \<noteq> None
        \<or> (key \<noteq> [] \<and> (\<exists>j < length ls. normalizeLabel (ls ! j) = key))"
    using Cons.prems
  proof
    assume "m key \<noteq> None"
    then show ?thesis by (auto simp: index_step_def Let_def)
  next
    assume a: "key \<noteq> [] \<and> (\<exists>j < length (l # ls). normalizeLabel ((l # ls) ! j) = key)"
    then obtain j where j: "j < length (l # ls)" "normalizeLabel ((l # ls) ! j) = key" by blast
    show ?thesis
    proof (cases j)
      case 0
      with j a show ?thesis by (simp add: index_step_def Let_def)
    next
      case (Suc j')
      with j a show ?thesis by auto
    qed
  qed
  from Cons.IH[of "index_step m (n, l)" "Suc n", OF this] show ?case by simp
qed

lemma index_labels_sound:
  "index_labels labels key = Some i \<Longrightarrow> i < length labels \<and> normalizeLabel (labels ! i) = key"
  using foldl_index_sound[of Map.empty 0 labels key i] by (simp add: index_labels_step)

lemma index_labels_complete:
  "key \<noteq> [] \<Longrightarrow> j < length labels \<Longrightarrow> normalizeLabel (labels ! j) = key \<Longrightarrow>
     \<exists>i. index_labels labels key = Some i"
  using foldl_index_complete[of Map.empty key labels 0] by (auto simp: index_labels_step)

lemma js_consts [simp]:
  "js ''mediatype'' \<noteq> js ''media_type''" "js ''media_type'' \<noteq> js ''mediatype''"
  "js ''video'' \<noteq> []" "js ''mediatype'' \<noteq> []" "js ''media_type'' \<noteq> []"
  "[] \<noteq> js ''video''" "[] \<noteq> js ''mediatype''" "[] \<noteq> js ''media_type''"
  "js ''true'' \<noteq> js ''video''" "js ''false'' \<noteq> js ''video''"
  by (simp_all add: js_def)

lemma toLowerCase_Nil [simp]: "toLowerCase [] = []"
  by (simp add: toLowerCase_def)

lemma toLowerCase_bool [simp]:
  "toLowerCase (js ''true'') \<noteq> js ''video''" "toLowerCase (js ''false'') \<noteq> js ''video''"
  by (simp_all add: js_def toLowerCase_def)

lemma str_or_simps [simp]: "str_or a [] = a" "str_or [] b = b"
  by (simp_all add: str_or_def)

text \<open>What the two lookups give when exactly one column carries one of the two names.\<close>

lemma unique_column_lookup:
  assumes "media_type_column labels k"
  shows "(index_labels labels (js ''mediatype'') = Some k \<and> index_labels labels (js ''media_type'') = None)
       \<or> (index_labels labels (js ''mediatype'') = None \<and> index_labels labels (js ''media_type'') = Some k)"
proof -
  from assms have k: "k < length labels"
    and u: "\<And>j. j < length labels \<Longrightarrow> normalizeLabel (labels ! j) \<in> {js ''mediatype'', js ''media_type''} \<Longrightarrow> j = k"
    and lk: "normalizeLabel (labels ! k) \<in> {js ''mediatype'', js ''media_type''}"
    by (auto simp: media_type_column_def)
  have only: "index_labels labels key = Some i \<Longrightarrow> key \<in> {js ''mediatype'', js ''media_type''}
       \<Longrightarrow> i = k \<and> normalizeLabel (labels ! k) = key" for key i
    using index_labels_sound[of labels key i] u[of i] by auto
  from lk show ?thesis
  proof
    assume a: "normalizeLabel (labels ! k) = js ''mediatype''"
    then obtain i where "index_labels labels (js ''mediatype'') = Some i"
      using index_labels_complete[OF _ k a] by auto
    with only[of "js ''mediatype''" i] have "index_labels labels (js ''mediatype'') = Some k" by simp
    moreover have "index_labels labels (js ''media_type'') = None"
    proof (cases "index_labels labels (js ''media_type'')")
      case (Some i)
      with only[of "js ''media_type''" i] a show ?thesis by simp
    qed simp
    ultimately show ?thesis by simp
  next
    assume "normalizeLabel (labels ! k) \<in> {js ''media_type''}"
    then have a: "normalizeLabel (labels ! k) = js ''media_type''" by simp
    then obtain i where "index_labels labels (js ''media_type'') = Some i"
      using index_labels_complete[OF _ k a] by auto
    with only[of "js ''media_type''" i] have "index_labels labels (js ''media_type'') = Some k" by simp
    moreover have "index_labels labels (js ''mediatype'') = None"
    proof (cases "index_labels labels (js ''mediatype'')")
      case (Some i)
      with only[of "js ''mediatype''" i] a show ?thesis by simp
    qed simp
    ultimately show ?thesis by simp
  qed
qed

lemma no_column_lookup:
  assumes "no_media_type_column labels"
  shows "index_labels labels (js ''mediatype'') = None \<and> index_labels labels (js ''media_type'') = None"
proof -
  have "index_labels labels key = None" if "key \<in> {js ''mediatype'', js ''media_type''}" for key
  proof (cases "index_labels labels key")
    case (Some i)
    from index_labels_sound[OF Some] assms that show ?thesis
      by (auto simp: no_media_type_column_def)
  qed simp
  then show ?thesis by simp
qed

lemma csv_row_media_type:
  assumes "csv_row (index_labels labels) i line = Some it"
  shows "(media_type_column labels k \<longrightarrow>
            (item_mediaType it = VideoMedia \<longleftrightarrow> csv_cell_is_video (splitCsvLine line) k))
       \<and> (media_type_column labels k \<longrightarrow>
            (item_mediaType it = ImageMedia \<longleftrightarrow> \<not> csv_cell_is_video (splitCsvLine line) k))
       \<and> (no_media_type_column labels \<longrightarrow> item_mediaType it = ImageMedia)"
proof -
  have mt: "item_mediaType it =
      (if toLowerCase (str_or (str_or (csv_get (index_labels labels) (splitCsvLine line) (js ''mediatype''))
                                 (csv_get (index_labels labels) (splitCsvLine line) (js ''media_type''))) [])
           = js ''video'' then VideoMedia else ImageMedia)"
    using assms by (auto simp: csv_row_def Let_def split: if_splits)
  have a: "item_mediaType it = (if csv_cell_is_video (splitCsvLine line) k then VideoMedia else ImageMedia)"
    if "media_type_column labels k"
  proof -
    have "str_or (csv_get (index_labels labels) (splitCsvLine line) (js ''mediatype''))
             (csv_get (index_labels labels) (splitCsvLine line) (js ''media_type''))
        = (if k < length (splitCsvLine line) then splitCsvLine line ! k else [])"
      using unique_column_lookup[OF that] by (auto simp: csv_get_def)
    then show ?thesis
      by (simp add: mt csv_cell_is_video_def)
  qed
  have b: "item_mediaType it = ImageMedia" if "no_media_type_column labels"
    using no_column_lookup[OF that] by (simp add: mt csv_get_def)
  from a b show ?thesis by simp
qed

lemma gviz_row_media_type:
  assumes "gviz_row numToString (index_labels labels) c idx = Some it"
    and "\<forall>n. toLowerCase (numToString n) \<noteq> js ''video''"
  shows "(media_type_column labels k \<longrightarrow>
            (item_mediaType it = VideoMedia \<longleftrightarrow> gviz_cell_is_video c k))
       \<and> (media_type_column labels k \<longrightarrow>
            (item_mediaType it = ImageMedia \<longleftrightarrow> \<not> gviz_cell_is_video c k))
       \<and> (no_media_type_column labels \<longrightarrow> item_mediaType it = ImageMedia)"
proof -
  have mt: "item_mediaType it =
      (if toLowerCase (string_or_empty numToString
            (nullish (cell_v c (index_labels labels (js ''mediatype'')))
               (nullish (cell_v c (index_labels labels (js ''media_type''))) (JStr []))))
           = js ''video'' then VideoMedia else ImageMedia)"
    using assms(1) by (auto simp: gviz_row_def Let_def split: if_splits)
  have s: "toLowerCase (string_or_empty numToString v) = js ''video''
       \<longleftrightarrow> (case v of JStr s \<Rightarrow> toLowerCase s = js ''video'' | _ \<Rightarrow> False)" for v
    using assms(2) by (cases v) (auto simp: string_or_empty_def truthy_def)
  have a: "item_mediaType it = (if gviz_cell_is_video c k then VideoMedia else ImageMedia)"
    if "media_type_column labels k"
  proof -
    have "nullish (cell_v c (index_labels labels (js ''mediatype'')))
               (nullish (cell_v c (index_labels labels (js ''media_type''))) (JStr []))
        = (if k < length c \<and> c ! k \<noteq> JNull then c ! k else JStr [])"
      using unique_column_lookup[OF that] by (auto simp: cell_v_def nullish_def split: if_splits)
    then show ?thesis
      by (auto simp: mt s gviz_cell_is_video_def split: jsval.splits)
  qed
  have b: "item_mediaType it = ImageMedia" if "no_media_type_column labels"
    using no_column_lookup[OF that] by (simp add: mt s cell_v_def nullish_def)
  from a b show ?thesis by simp
qed

lemma set_map_filter_iff: "y \<in> set (List.map_filter f xs) \<longleftrightarrow> (\<exists>x \<in> set xs. f x = Some y)"
  by (induction xs) (auto simp: List.map_filter_simps split: option.splits)

lemma csv_row_id: "csv_row indices i line = Some it \<Longrightarrow> item_id it = nat_to_string i"
  by (auto simp: csv_row_def Let_def split: if_splits)

lemma gviz_row_id: "gviz_row numToString colIndex c idx = Some it \<Longrightarrow> item_id it = nat_to_string (idx + 1)"
  by (auto simp: gviz_row_def Let_def split: if_splits)

lemma parseCsv_rows:
  assumes "it \<in> set (parseCsv text)"
  shows "\<exists>i. 1 \<le> i \<and> i < length (csv_lines text)
           \<and> csv_row (index_labels (csv_header text)) i (csv_lines text ! i) = Some it"
  using assms unfolding parseCsv_def Let_def csv_lines_def[symmetric] csv_header_def[symmetric]
  by (auto simp: set_map_filter_iff split: if_splits)

lemma parseGviz_rows:
  assumes "it \<in> set (parseGviz numToString tbl)"
  shows "\<exists>idx < length (rows tbl).
           gviz_row numToString (index_labels (cols tbl)) (rows tbl ! idx) idx = Some it"
  using assms unfolding parseGviz_def Let_def
  by (auto simp: set_map_filter_iff)

lemma csv_row_video_only_if:
  assumes "csv_row (index_labels labels) i line = Some it" and "item_mediaType it = VideoMedia"
  shows "\<exists>k < length labels. normalizeLabel (labels ! k) \<in> {js ''mediatype'', js ''media_type''}
           \<and> csv_cell_is_video (splitCsvLine line) k"
proof -
  let ?g = "csv_get (index_labels labels) (splitCsvLine line)"
  let ?raw = "str_or (?g (js ''mediatype'')) (?g (js ''media_type''))"
  have "toLowerCase ?raw = js ''video''"
    using assms by (auto simp: csv_row_def Let_def split: if_splits)
  moreover from this have "?raw \<noteq> []" by auto
  ultimately obtain name where n: "name \<in> {js ''mediatype'', js ''media_type''}"
    and g: "?g name \<noteq> []" "toLowerCase (?g name) = js ''video''"
    by (auto simp: str_or_def split: if_splits)
  from g(1) obtain k where k: "index_labels labels name = Some k" "k < length (splitCsvLine line)"
    "?g name = splitCsvLine line ! k"
    by (auto simp: csv_get_def split: option.splits if_splits)
  from index_labels_sound[OF k(1)] n k g(2) show ?thesis
    by (auto simp: csv_cell_is_video_def)
qed

lemma gviz_row_video_only_if:
  assumes "gviz_row numToString (index_labels labels) c idx = Some it"
    and "item_mediaType it = VideoMedia"
    and "\<forall>n. toLowerCase (numToString n) \<noteq> js ''video''"
  shows "\<exists>k < length labels. normalizeLabel (labels ! k) \<in> {js ''mediatype'', js ''media_type''}
           \<and> gviz_cell_is_video c k"
proof -
  let ?g = "\<lambda>name. cell_v c (index_labels labels name)"
  let ?raw = "nullish (?g (js ''mediatype'')) (nullish (?g (js ''media_type'')) (JStr []))"
  have v: "toLowerCase (string_or_empty numToString ?raw) = js ''video''"
    using assms(1,2) by (auto simp: gviz_row_def Let_def split: if_splits)
  have s: "toLowerCase (string_or_empty numToString v) = js ''video''
       \<longleftrightarrow> (case v of JStr s \<Rightarrow> toLowerCase s = js ''video'' | _ \<Rightarrow> False)" for v
    using assms(3) by (cases v) (auto simp: string_or_empty_def truthy_def)
  from v s obtain str where r: "?raw = JStr str" "toLowerCase str = js ''video''"
    by (auto split: jsval.splits)
  then have "str \<noteq> []" by auto
  with r obtain name where n: "name \<in> {js ''mediatype'', js ''media_type''}"
    and g: "?g name = JStr str"
    by (auto simp: nullish_def split: if_splits)
  from g obtain k where k: "index_labels labels name = Some k" "k < length c" "c ! k = JStr str"
    by (auto simp: cell_v_def split: option.splits if_splits)
  from index_labels_sound[OF k(1)] n k r(2) show ?thesis
    by (auto simp: gviz_cell_is_video_def)
qed

lemma last_column_snoc:
  "last_column (ls @ [l]) name
     = (if normalizeLabel l = name then Some (length ls) else last_column ls name)"
proof -
  have "filter (\<lambda>j. normalizeLabel ((ls @ [l]) ! j) = name) [0..<length ls]
      = filter (\<lambda>j. normalizeLabel (ls ! j) = name) [0..<length ls]"
    by (rule filter_cong) (auto simp: nth_append)
  then show ?thesis
    by (simp add: last_column_def Let_def)
qed

lemma index_labels_snoc:
  "index_labels (ls @ [l]) = index_step (index_labels ls) (length ls, l)"
  by (simp add: index_labels_def enumerate_append_eq)

lemma index_labels_last_column:
  "name \<noteq> [] \<Longrightarrow> index_labels labels name = last_column labels name"
proof (induction labels rule: rev_induct)
  case Nil
  show ?case by (simp add: index_labels_def last_column_def)
next
  case (snoc l ls)
  then show ?case
    by (auto simp: index_labels_snoc last_column_snoc index_step_def Let_def)
qed

lemma csv_get_cell_at:
  "name \<noteq> [] \<Longrightarrow> csv_get (index_labels labels) cells name = csv_cell_at cells (last_column labels name)"
  by (simp add: csv_get_def csv_cell_at_def index_labels_last_column str_or_def split: option.splits)

lemma cell_v_cell_at:
  "name \<noteq> [] \<Longrightarrow> cell_v cells (index_labels labels name) = gviz_cell_at cells (last_column labels name)"
  by (simp add: cell_v_def gviz_cell_at_def index_labels_last_column)

lemma csv_row_selected:
  assumes "csv_row (index_labels labels) i line = Some it"
  shows "item_mediaType it
       = (if toLowerCase (csv_selected_cell labels (splitCsvLine line)) = js ''video''
          then VideoMedia else ImageMedia)"
proof -
  have "item_mediaType it =
      (if toLowerCase (str_or (str_or (csv_get (index_labels labels) (splitCsvLine line) (js ''mediatype''))
                                 (csv_get (index_labels labels) (splitCsvLine line) (js ''media_type''))) [])
           = js ''video'' then VideoMedia else ImageMedia)"
    using assms by (auto simp: csv_row_def Let_def split: if_splits)
  then show ?thesis
    by (simp add: csv_get_cell_at csv_selected_cell_def str_or_def)
qed

lemma gviz_row_selected:
  assumes "gviz_row numToString (index_labels labels) c idx = Some it"
    and "\<forall>n. toLowerCase (numToString n) \<noteq> js ''video''"
  shows "item_mediaType it
       = (if is_video_string (gviz_selected_cell labels c) then VideoMedia else ImageMedia)"
proof -
  have mt: "item_mediaType it =
      (if toLowerCase (string_or_empty numToString
            (nullish (cell_v c (index_labels labels (js ''mediatype'')))
               (nullish (cell_v c (index_labels labels (js ''media_type''))) (JStr []))))
           = js ''video'' then VideoMedia else ImageMedia)"
    using assms(1) by (auto simp: gviz_row_def Let_def split: if_splits)
  have s: "toLowerCase (string_or_empty numToString v) = js ''video'' \<longleftrightarrow> is_video_string v" for v
    using assms(2) by (cases v) (auto simp: string_or_empty_def truthy_def is_video_string_def)
  have e: "is_video_string (JStr []) = False" by (simp add: is_video_string_def)
  show ?thesis
    unfolding mt s
    by (auto simp: cell_v_cell_at gviz_selected_cell_def nullish_def e is_video_string_def)
qed

text \<open>
  C8, amended. Every item that \<open>parseCsv\<close> or \<open>parseGviz\<close> returns comes from a row of
  the feed. Its media type is \<open>video\<close> exactly when the cell the parser selects in that
  row equals \<open>video\<close> in any case, and \<open>image\<close> otherwise. The cell selected is the one
  under the last column labelled \<open>mediaType\<close> (trimmed, in any case); when that cell is
  missing or empty for \<open>parseCsv\<close>, missing or \<open>null\<close> for \<open>parseGviz\<close>, it is the one
  under the last column labelled \<open>media_type\<close>. So the media type is \<open>video\<close> only if a
  cell of the row under a column with one of the two labels equals \<open>video\<close> in any
  case; when exactly one column \<open>k\<close> carries such a label, it is \<open>video\<close> if the row's
  cell in column \<open>k\<close> equals \<open>video\<close> in any case, and \<open>image\<close> otherwise: when the cell
  is missing, empty, not a string, or any other value; and with no such column it is
  \<open>image\<close>. For \<open>parseGviz\<close> the decimal form of a number is taken never to spell
  \<open>video\<close>.
\<close>

theorem media_type_normalized:
  "(it \<in> set (parseCsv text) \<longrightarrow>
      (\<exists>i. 1 \<le> i \<and> i < length (csv_lines text) \<and> item_id it = nat_to_string i
         \<and> item_mediaType it
              = (if toLowerCase (csv_selected_cell (csv_header text) (splitCsvLine (csv_lines text ! i)))
                      = js ''video''
                 then VideoMedia else ImageMedia)
         \<and> (item_mediaType it = VideoMedia \<longrightarrow>
               (\<exists>k < length (csv_header text).
                   normalizeLabel (csv_header text ! k) \<in> {js ''mediatype'', js ''media_type''}
                   \<and> csv_cell_is_video (splitCsvLine (csv_lines text ! i)) k))
         \<and> (\<forall>k. media_type_column (csv_header text) k \<longrightarrow>
               item_mediaType it
                 = (if csv_cell_is_video (splitCsvLine (csv_lines text ! i)) k then VideoMedia else ImageMedia))
         \<and> (no_media_type_column (csv_header text) \<longrightarrow> item_mediaType it = ImageMedia)))
   \<and> (it \<in> set (parseGviz numToString tbl) \<and> (\<forall>n. toLowerCase (numToString n) \<noteq> js ''video'') \<longrightarrow>
      (\<exists>idx < length (rows tbl). item_id it = nat_to_string (idx + 1)
         \<and> item_mediaType it
              = (if is_video_string (gviz_selected_cell (cols tbl) (rows tbl ! idx))
                 then VideoMedia else ImageMedia)
         \<and> (item_mediaType it = VideoMedia \<longrightarrow>
               (\<exists>k < length (cols tbl).
                   normalizeLabel (cols tbl ! k) \<in> {js ''mediatype'', js ''media_type''}
                   \<and> gviz_cell_is_video (rows tbl ! idx) k))
         \<and> (\<forall>k. media_type_column (cols tbl) k \<longrightarrow>
               item_mediaType it = (if gviz_cell_is_video (rows tbl ! idx) k then VideoMedia else ImageMedia))
         \<and> (no_media_type_column (cols tbl) \<longrightarrow> item_mediaType it = ImageMedia)))"
proof (intro conjI impI)
  assume "it \<in> set (parseCsv text)"
  then obtain i where i: "1 \<le> i" "i < length (csv_lines text)"
    and r: "csv_row (index_labels (csv_header text)) i (csv_lines text ! i) = Some it"
    using parseCsv_rows by blast
  have "media_type_column (csv_header text) k \<longrightarrow>
               item_mediaType it
                 = (if csv_cell_is_video (splitCsvLine (csv_lines text ! i)) k then VideoMedia else ImageMedia)" for k
    using csv_row_media_type[OF r, of k] by (cases "item_mediaType it") auto
  moreover have "no_media_type_column (csv_header text) \<longrightarrow> item_mediaType it = ImageMedia"
    using csv_row_media_type[OF r] by blast
  moreover have "item_mediaType it = VideoMedia \<longrightarrow>
               (\<exists>k < length (csv_header text).
                   normalizeLabel (csv_header text ! k) \<in> {js ''mediatype'', js ''media_type''}
                   \<and> csv_cell_is_video (splitCsvLine (csv_lines text ! i)) k)"
    using csv_row_video_only_if[OF r] by blast
  moreover note csv_row_selected[OF r]
  ultimately show "\<exists>i. 1 \<le> i \<and> i < length (csv_lines text) \<and> item_id it = nat_to_string i
         \<and> item_mediaType it
              = (if toLowerCase (csv_selected_cell (csv_header text) (splitCsvLine (csv_lines text ! i)))
                      = js ''video''
                 then VideoMedia else ImageMedia)
         \<and> (item_mediaType it = VideoMedia \<longrightarrow>
               (\<exists>k < length (csv_header text).
                   normalizeLabel (csv_header text ! k) \<in> {js ''mediatype'', js ''media_type''}
                   \<and> csv_cell_is_video (splitCsvLine (csv_lines text ! i)) k))
         \<and> (\<forall>k. media_type_column (csv_header text) k \<longrightarrow>
               item_mediaType it
                 = (if csv_cell_is_video (splitCsvLine (csv_lines text ! i)) k then VideoMedia else ImageMedia))
         \<and> (no_media_type_column (csv_header text) \<longrightarrow> item_mediaType it = ImageMedia)"
    using i csv_row_id[OF r] by blast
next
  assume a: "it \<in> set (parseGviz numToString tbl) \<and> (\<forall>n. toLowerCase (numToString n) \<noteq> js ''video'')"
  then obtain idx where i: "idx < length (rows tbl)"
    and r: "gviz_row numToString (index_labels (cols tbl)) (rows tbl ! idx) idx = Some it"
    using parseGviz_rows by blast
  from a have n: "\<forall>n. toLowerCase (numToString n) \<noteq> js ''video''" by simp
  have "media_type_column (cols tbl) k \<longrightarrow>
               item_mediaType it = (if gviz_cell_is_video (rows tbl ! idx) k then VideoMedia else ImageMedia)" for k
    using gviz_row_media_type[OF r n, of k] by (cases "item_mediaType it") auto
  moreover have "no_media_type_column (cols tbl) \<longrightarrow> item_mediaType it = ImageMedia"
    using gviz_row_media_type[OF r n] by blast
  moreover have "item_mediaType it = VideoMedia \<longrightarrow>
               (\<exists>k < length (cols tbl).
                   normalizeLabel (cols tbl ! k) \<in> {js ''mediatype'', js ''media_type''}
                   \<and> gviz_cell_is_video (rows tbl ! idx) k)"
    using gviz_row_video_only_if[OF r _ n] by blast
  moreover note gviz_row_selected[OF r n]
  ultimately show "\<exists>idx < length (rows tbl). item_id it = nat_to_string (idx + 1)
         \<and> item_mediaType it
              = (if is_video_string (gviz_selected_cell (cols tbl) (rows tbl ! idx))
                 then VideoMedia else ImageMedia)
         \<and> (item_mediaType it = VideoMedia \<longrightarrow>
               (\<exists>k < length (cols tbl).
                   normalizeLabel (cols tbl ! k) \<in> {js ''mediatype'', js ''media_type''}
                   \<and> gviz_cell_is_video (rows tbl ! idx) k))
         \<and> (\<forall>k. media_type_column (cols tbl) k \<longrightarrow>
               item_mediaType it = (if gviz_cell_is_video (rows tbl ! idx) k then VideoMedia else ImageMedia))
         \<and> (no_media_type_column (cols tbl) \<longrightarrow> item_mediaType it = ImageMedia)"
    using i gviz_row_id[OF r] by blast
qed

theorem media_type_normalized_witness:
  "\<lparr> item_id = js ''1'', item_title = js ''Flood'', item_mediaUrl = js ''/a.mp4'', item_mediaType = VideoMedia \<rparr>
      \<in> set (parseCsv feed_csv)
   \<and> media_type_column (csv_header feed_csv) 2
   \<and> (\<exists>i. 1 \<le> i \<and> i < length (csv_lines feed_csv)
         \<and> VideoMedia = (if csv_cell_is_video (splitCsvLine (csv_lines feed_csv ! i)) 2 then VideoMedia else ImageMedia))
   \<and> (\<exists>i. 1 \<le> i \<and> i < length (csv_lines feed_csv)
         \<and> VideoMedia = (if toLowerCase (csv_selected_cell (csv_header feed_csv)
                                            (splitCsvLine (csv_lines feed_csv ! i))) = js ''video''
                            then VideoMedia else ImageMedia))
   \<and> \<lparr> item_id = js ''2'', item_title = js ''Fire'', item_mediaUrl = [], item_mediaType = ImageMedia \<rparr>
      \<in> set (parseGviz digits0 feed_gviz)
   \<and> (\<forall>n. toLowerCase (digits0 n) \<noteq> js ''video'')
   \<and> media_type_column (cols feed_gviz) 2
   \<and> (\<exists>idx < length (rows feed_gviz).
         ImageMedia = (if gviz_cell_is_video (rows feed_gviz ! idx) 2 then VideoMedia else ImageMedia))
   \<and> (\<exists>idx < length (rows feed_gviz).
         ImageMedia = (if is_video_string (gviz_selected_cell (cols feed_gviz) (rows feed_gviz ! idx))
                       then VideoMedia else ImageMedia))"
proof -
  let ?a = "\<lparr> item_id = js ''1'', item_title = js ''Flood'', item_mediaUrl = js ''/a.mp4'',
              item_mediaType = VideoMedia \<rparr>"
  let ?b = "\<lparr> item_id = js ''2'', item_title = js ''Fire'', item_mediaUrl = [],
              item_mediaType = ImageMedia \<rparr>"
  have a: "?a \<in> set (parseCsv feed_csv)" by code_simp
  have b: "media_type_column (csv_header feed_csv) 2" by code_simp
  have c: "?b \<in> set (parseGviz digits0 feed_gviz)" by code_simp
  have d: "\<forall>n. toLowerCase (digits0 n) \<noteq> js ''video''"
    by (simp add: digits0_def js_def toLowerCase_def)
  have e: "media_type_column (cols feed_gviz) 2" by code_simp
  from media_type_normalized[of ?a feed_csv digits0 feed_gviz] a b
  have f: "\<exists>i. 1 \<le> i \<and> i < length (csv_lines feed_csv)
         \<and> VideoMedia = (if csv_cell_is_video (splitCsvLine (csv_lines feed_csv ! i)) 2 then VideoMedia else ImageMedia)"
    and f': "\<exists>i. 1 \<le> i \<and> i < length (csv_lines feed_csv)
         \<and> VideoMedia = (if toLowerCase (csv_selected_cell (csv_header feed_csv)
                                            (splitCsvLine (csv_lines feed_csv ! i))) = js ''video''
                            then VideoMedia else ImageMedia)"
    by (simp only: NewsItem.simps, blast)+
  from media_type_normalized[of ?b feed_csv digits0 feed_gviz] c d e
  have g: "\<exists>idx < length (rows feed_gviz).
         ImageMedia = (if gviz_cell_is_video (rows feed_gviz ! idx) 2 then VideoMedia else ImageMedia)"
    and g': "\<exists>idx < length (rows feed_gviz).
         ImageMedia = (if is_video_string (gviz_selected_cell (cols feed_gviz) (rows feed_gviz ! idx))
                       then VideoMedia else ImageMedia)"
    by (simp only: NewsItem.simps, blast)+
  from a b c d e f f' g g' show ?thesis by blast
qed

text \<open>
  C8 as stated fails. A row with both columns, \<open>mediaType\<close> empty and \<open>media_type\<close>
  \<open>video\<close>: \<open>parseCsv\<close> passes over the empty cell and returns \<open>video\<close>, \<open>parseGviz\<close> stops
  at the empty string, which is not \<open>null\<close>, and returns \<open>image\<close>. No cell of the row
  decides the media type for both parsers.
\<close>

theorem media_type_parsers_disagree_counterexample:
  "parseCsv feed_both_csv
     = [\<lparr> item_id = js ''1'', item_title = js ''Flood'', item_mediaUrl = [], item_mediaType = VideoMedia \<rparr>]
   \<and> parseGviz digits0 feed_both_gviz
     = [\<lparr> item_id = js ''1'', item_title = js ''Flood'', item_mediaUrl = [], item_mediaType = ImageMedia \<rparr>]"
  by code_simp

end
